theory Spec2Isabelle
  imports Complex_Main "HOL-Library.Sublist"
begin

section \<open>Python values used by the notebooks\<close>

text \<open>
  The notebooks compute with Python floats. They are modelled as exact rationals
  (type \<open>rat\<close>), so a decimal literal such as \<open>5.94\<close> stands for the fraction
  \<open>594 / 100\<close>. The only exception the notebooks' own statements can raise is the
  \<open>KeyError\<close> of a dictionary (or variable container) lookup.
\<close>

datatype py_error = KeyError

text \<open>
  A dictionary literal or comprehension is the list of its items in source order; a
  later binding of a key replaces an earlier one, so lookups search from the end.
\<close>

definition dict_get :: "('k \<times> 'a) list \<Rightarrow> 'k \<Rightarrow> py_error + 'a" where
  "dict_get d k = (case map_of (rev d) k of None \<Rightarrow> Inl KeyError | Some a \<Rightarrow> Inr a)"

definition dict_keys :: "('k \<times> 'a) list \<Rightarrow> 'k set" where
  "dict_keys d = fst ` set d"

text \<open>
  A \<open>for\<close> loop over a sequence threads the loop's variables through the body and
  stops at the first exception.
\<close>

fun for_each :: "'a list \<Rightarrow> ('a \<Rightarrow> 's \<Rightarrow> py_error + 's) \<Rightarrow> 's \<Rightarrow> py_error + 's" where
  "for_each [] body s = Inr s"
| "for_each (a # as) body s =
     (case body a s of Inl err \<Rightarrow> Inl err | Inr s' \<Rightarrow> for_each as body s')"

text \<open>\<open>str\<close> of a non-negative integer, as an f-string formats it.\<close>

definition digit_char :: "nat \<Rightarrow> char" where
  "digit_char d = ''0123456789'' ! d"

fun str_nat :: "nat \<Rightarrow> string" where
  "str_nat n = (if n < 10 then [digit_char n] else str_nat (n div 10) @ [digit_char (n mod 10)])"

declare str_nat.simps [simp del]

section \<open>The modelling interface of the solver\<close>

text \<open>
  A model is what the notebooks hand to the solver: decision variables with their
  types, one linear objective with its sense, and named linear constraints. A linear
  expression is the list of its terms (coefficient, variable key) in the order added.
\<close>

datatype vtype = CONTINUOUS | BINARY | INTEGER

datatype sense = MINIMIZE | MAXIMIZE

datatype relop = LESS_EQUAL | EQUAL | GREATER_EQUAL

type_synonym 'k linexpr = "(rat \<times> 'k) list"

record 'k constr =
  lhs :: "'k linexpr"
  rel :: relop
  rhs :: rat
  cname :: string

record 'k model =
  mname :: string
  mvars :: "('k \<times> vtype \<times> string) list"
  objective :: "'k linexpr"
  msense :: sense
  constrs :: "'k constr list"

definition Model :: "string \<Rightarrow> 'k model" where
  "Model nm = \<lparr>mname = nm, mvars = [], objective = [], msense = MINIMIZE, constrs = []\<rparr>"

text \<open>
  \<open>addVars\<close> adds one variable per key and returns the container of the new
  variables, modelled by the list of its keys; indexing the container with a key it
  does not hold raises \<open>KeyError\<close>.
\<close>

definition addVars :: "'k list \<Rightarrow> vtype \<Rightarrow> string \<Rightarrow> 'k model \<Rightarrow> 'k model" where
  "addVars keys vt nm m = m\<lparr>mvars := mvars m @ map (\<lambda>k. (k, vt, nm)) keys\<rparr>"

definition getitem :: "'k list \<Rightarrow> 'k \<Rightarrow> py_error + 'k" where
  "getitem keys k = (if k \<in> set keys then Inr k else Inl KeyError)"

definition LinExpr :: "'k linexpr" where
  "LinExpr = []"

definition var_times :: "rat \<Rightarrow> 'k \<Rightarrow> 'k linexpr" where
  "var_times a k = [(a, k)]"

definition LinExpr_add :: "'k linexpr \<Rightarrow> 'k linexpr \<Rightarrow> 'k linexpr" where
  "LinExpr_add e t = e @ t"

definition setObjective :: "'k linexpr \<Rightarrow> sense \<Rightarrow> 'k model \<Rightarrow> 'k model" where
  "setObjective e s m = m\<lparr>objective := e, msense := s\<rparr>"

definition addConstr :: "'k linexpr \<times> relop \<times> rat \<Rightarrow> string \<Rightarrow> 'k model \<Rightarrow> 'k model" where
  "addConstr tc nm m =
     m\<lparr>constrs := constrs m @ [\<lparr>lhs = fst tc, rel = fst (snd tc), rhs = snd (snd tc), cname = nm\<rparr>]\<rparr>"

subsection \<open>What the solver is asked for\<close>

text \<open>
  A solution gives every variable a number. It is feasible when each variable lies in
  the domain of its type and each constraint holds, and optimal when no feasible
  solution has a better objective.
\<close>

definition eval_linexpr :: "('k \<Rightarrow> rat) \<Rightarrow> 'k linexpr \<Rightarrow> rat" where
  "eval_linexpr x e = sum_list (map (\<lambda>t. fst t * x (snd t)) e)"

fun in_domain :: "vtype \<Rightarrow> rat \<Rightarrow> bool" where
  "in_domain CONTINUOUS a = (0 \<le> a)"
| "in_domain BINARY a = (a = 0 \<or> a = 1)"
| "in_domain INTEGER a = (0 \<le> a \<and> of_int \<lfloor>a\<rfloor> = a)"

fun holds_rel :: "relop \<Rightarrow> rat \<Rightarrow> rat \<Rightarrow> bool" where
  "holds_rel LESS_EQUAL a c = (a \<le> c)"
| "holds_rel EQUAL a c = (a = c)"
| "holds_rel GREATER_EQUAL a c = (a \<ge> c)"

definition satisfies :: "('k \<Rightarrow> rat) \<Rightarrow> 'k constr \<Rightarrow> bool" where
  "satisfies x c = holds_rel (rel c) (eval_linexpr x (lhs c)) (rhs c)"

definition feasible :: "'k model \<Rightarrow> ('k \<Rightarrow> rat) \<Rightarrow> bool" where
  "feasible m x =
     (list_all (\<lambda>d. in_domain (fst (snd d)) (x (fst d))) (mvars m) \<and>
      list_all (satisfies x) (constrs m))"

fun at_least_as_good :: "sense \<Rightarrow> rat \<Rightarrow> rat \<Rightarrow> bool" where
  "at_least_as_good MINIMIZE a c = (a \<le> c)"
| "at_least_as_good MAXIMIZE a c = (a \<ge> c)"

definition optimal :: "'k model \<Rightarrow> ('k \<Rightarrow> rat) \<Rightarrow> bool" where
  "optimal m x =
     (feasible m x \<and>
      (\<forall>y. feasible m y \<longrightarrow>
         at_least_as_good (msense m) (eval_linexpr x (objective m)) (eval_linexpr y (objective m))))"

section \<open>The knapsack notebook\<close>

text \<open>
  The item set \<open>I\<close> is the Python set \<open>{1, ..., 10}\<close>; the notebook's recorded output
  shows it iterated in ascending order, so it is the ascending list.
\<close>

definition knapsack_I :: "nat list" where
  "knapsack_I = [1..<11]"

definition knapsack_v :: "(nat \<times> rat) list" where
  "knapsack_v =
     [(1, 5.94), (2, 7.44), (3, 6.42), (4, 5.9), (5, 4.81),
      (6, 6.81), (7, 4.94), (8, 9.03), (9, 9.67), (10, 4.45)]"

definition knapsack_w :: "(nat \<times> rat) list" where
  "knapsack_w =
     [(1, 8.13), (2, 5.76), (3, 6.11), (4, 9.33), (5, 1.64),
      (6, 1.78), (7, 1.18), (8, 8.49), (9, 8.0), (10, 8.83)]"

definition knapsack_b :: rat where
  "knapsack_b = 26.66"

text \<open>The variable container \<open>X\<close> returned by \<open>addVars\<close>.\<close>

definition knapsack_X :: "nat list" where
  "knapsack_X = knapsack_I"

text \<open>The loop \<open>for i in I: e.add(d[i]*X[i])\<close>, used for both sums of the notebook.\<close>

definition knapsack_sum :: "(nat \<times> rat) list \<Rightarrow> py_error + nat linexpr" where
  "knapsack_sum d =
     for_each knapsack_I
       (\<lambda>i e. case dict_get d i of Inl err \<Rightarrow> Inl err
              | Inr a \<Rightarrow> (case getitem knapsack_X i of Inl err \<Rightarrow> Inl err
                         | Inr k \<Rightarrow> Inr (LinExpr_add e (var_times a k))))
       LinExpr"

definition knapsack_model :: "py_error + nat model" where
  "knapsack_model =
     (let model = addVars knapsack_I BINARY ''X'' (Model ''Knapsack-Problem'') in
      case knapsack_sum knapsack_v of Inl err \<Rightarrow> Inl err
      | Inr total_value \<Rightarrow>
          (let model = setObjective total_value MAXIMIZE model in
           case knapsack_sum knapsack_w of Inl err \<Rightarrow> Inl err
           | Inr i_sum \<Rightarrow>
               Inr (addConstr (i_sum, LESS_EQUAL, knapsack_b) ''capacity_constraint'' model)))"

text \<open>
  The solution the notebook records for the solved model (the variables its JSON
  solution lists with value 1) and the objective value it records.
\<close>

definition knapsack_reported :: "nat \<Rightarrow> rat" where
  "knapsack_reported i = (if i \<in> {2, 3, 5, 6, 7, 9} then 1 else 0)"

definition knapsack_ObjVal :: rat where
  "knapsack_ObjVal = 40.09"

text \<open>
  The printing cell, given the values \<open>X[i].x\<close> of the solved model; the result is
  the list of printed lines.
\<close>

definition knapsack_line :: "nat \<Rightarrow> string" where
  "knapsack_line i = '' - Item '' @ str_nat i @ '' included''"

definition report_header :: "string list" where
  "report_header = [''Optimal Assignments'', replicate 20 (CHR ''-'')]"

definition knapsack_report :: "(nat \<Rightarrow> rat) \<Rightarrow> py_error + string list" where
  "knapsack_report x =
     for_each knapsack_I
       (\<lambda>i out. case getitem knapsack_X i of Inl err \<Rightarrow> Inl err
                | Inr k \<Rightarrow> Inr (if x k > 0.1 then out @ [knapsack_line i] else out))
       report_header"

section \<open>The assignment notebook\<close>

definition SIZE :: nat where
  "SIZE = 10"

definition assignment_M :: "nat list" where
  "assignment_M = [1..<SIZE + 1]"

definition assignment_N :: "nat list" where
  "assignment_N = [1..<SIZE + 1]"

text \<open>
  The cost dictionary is a comprehension over \<open>itertools.product(M, N)\<close> that draws
  one sample of \<open>np.random.uniform(0, 10)\<close> per key. The random generator belongs to
  an external library, so the sequence of samples is a parameter: \<open>uniform n\<close> is the
  sample of draw number \<open>n\<close>, counted from 0.
\<close>

definition assignment_c :: "(nat \<Rightarrow> rat) \<Rightarrow> ((nat \<times> nat) \<times> rat) list" where
  "assignment_c uniform =
     (let keys = List.product assignment_M assignment_N
      in zip keys (map uniform [0..<length keys]))"

text \<open>
  The samples drawn after \<open>np.random.seed(0)\<close>, as the notebook records them: the
  coefficients its objective cell prints, in the order drawn.
\<close>

definition recorded_uniform :: "rat list" where
  "recorded_uniform =
     [5.4881350392732475, 7.151893663724195, 6.027633760716439, 5.448831829968968, 4.236547993389047,
      6.458941130666561, 4.375872112626925, 8.917730007820797, 9.636627605010293, 3.8344151882577773,
      7.917250380826646, 5.288949197529044, 5.680445610939323, 9.25596638292661, 0.7103605819788694,
      0.8712929970154071, 0.2021839744032572, 8.32619845547938, 7.781567509498505, 8.700121482468191,
      9.78618342232764, 7.9915856421672355, 4.6147936225293185, 7.805291762864554, 1.1827442586893322,
      6.399210213275238, 1.433532874090464, 9.446689170495839, 5.218483217500717, 4.146619399905235,
      2.64555612104627, 7.742336894342166, 4.5615033221654855, 5.684339488686485, 0.18789800436355142,
      6.176354970758771, 6.120957227224214, 6.169339968747569, 9.437480785146242, 6.818202991034834,
      3.59507900573786, 4.3703195379934145, 6.976311959272649, 0.6022547162926983, 6.667667154456677,
      6.706378696181594, 2.103825610738409, 1.289262976548533, 3.1542835092418384, 3.637107709426226,
      5.701967704178797, 4.386015134623204, 9.883738380592263, 1.0204481074802807, 2.088767560948347,
      1.6130951788499626, 6.531083254653984, 2.532916025397821, 4.663107728563062, 2.4442559200160274,
      1.5896958364551972, 1.1037514116430513, 6.563295894652734, 1.381829513486138, 1.965823616800535,
      3.687251706609641, 8.209932298479352, 0.9710127579306127, 8.379449074988038, 0.9609840789396307,
      9.764594650133958, 4.686512016477016, 9.767610881903371, 6.04845519745046, 7.3926357939830165,
      0.39187792254320675, 2.828069625764096, 1.201965612131689, 2.9614019752214493, 1.1872771895424405,
      3.1798317939397602, 4.1426299451467, 0.6414749634878436, 6.924721193700199, 5.666014542065751,
      2.653894909394454, 5.232480534666997, 0.9394051075844168, 5.759464955561793, 9.292961975762141,
      3.1856895245132364, 6.674103799636817, 1.3179786240439217, 7.163272041185655, 2.894060929472011,
      1.8319136200711683, 5.865129348100831, 0.20107546187493552, 8.289400292173632, 0.046954761925470656]"

text \<open>The variable container \<open>X = model.addVars(N, M, ...)\<close>: one key per pair.\<close>

definition assignment_X :: "(nat \<times> nat) list" where
  "assignment_X = List.product assignment_N assignment_M"

text \<open>The objective loop \<open>for i in N: for j in M: total_cost.add(c[i, j]*X[i, j])\<close>.\<close>

definition assignment_total_cost ::
  "((nat \<times> nat) \<times> rat) list \<Rightarrow> py_error + (nat \<times> nat) linexpr" where
  "assignment_total_cost c =
     for_each assignment_N
       (\<lambda>i total_cost.
          for_each assignment_M
            (\<lambda>j total_cost.
               case dict_get c (i, j) of Inl err \<Rightarrow> Inl err
               | Inr a \<Rightarrow> (case getitem assignment_X (i, j) of Inl err \<Rightarrow> Inl err
                          | Inr k \<Rightarrow> Inr (LinExpr_add total_cost (var_times a k))))
            total_cost)
       LinExpr"

text \<open>
  The two constraint cells. Each outer iteration starts a fresh expression, adds one
  variable (with coefficient 1) per inner iteration and adds the equation to the model.
\<close>

definition task_constraints :: "(nat \<times> nat) model \<Rightarrow> py_error + (nat \<times> nat) model" where
  "task_constraints model =
     for_each assignment_N
       (\<lambda>j model.
          case for_each assignment_M
                 (\<lambda>i i_sum. case getitem assignment_X (i, j) of Inl err \<Rightarrow> Inl err
                            | Inr k \<Rightarrow> Inr (LinExpr_add i_sum (var_times 1 k)))
                 LinExpr
          of Inl err \<Rightarrow> Inl err
          | Inr i_sum \<Rightarrow>
              Inr (addConstr (i_sum, EQUAL, 1)
                     (''task_'' @ str_nat j @ ''_assigned_to_one_resource'') model))
       model"

definition resource_constraints :: "(nat \<times> nat) model \<Rightarrow> py_error + (nat \<times> nat) model" where
  "resource_constraints model =
     for_each assignment_M
       (\<lambda>i model.
          case for_each assignment_N
                 (\<lambda>j j_sum. case getitem assignment_X (i, j) of Inl err \<Rightarrow> Inl err
                            | Inr k \<Rightarrow> Inr (LinExpr_add j_sum (var_times 1 k)))
                 LinExpr
          of Inl err \<Rightarrow> Inl err
          | Inr j_sum \<Rightarrow>
              Inr (addConstr (j_sum, EQUAL, 1)
                     (''resource_'' @ str_nat i @ ''_assigned_to_one_task'') model))
       model"

definition assignment_model :: "(nat \<Rightarrow> rat) \<Rightarrow> py_error + (nat \<times> nat) model" where
  "assignment_model uniform =
     (let c = assignment_c uniform;
          model = addVars assignment_X BINARY ''X'' (Model ''Assignment-Problem'')
      in case assignment_total_cost c of Inl err \<Rightarrow> Inl err
         | Inr total_cost \<Rightarrow>
             (case task_constraints (setObjective total_cost MINIMIZE model) of
                Inl err \<Rightarrow> Inl err
              | Inr model \<Rightarrow> resource_constraints model))"

text \<open>
  The matching the notebook records for the solved model: the variables \<open>X[i,j]\<close>
  its JSON solution lists with value 1.
\<close>

definition assignment_reported :: "(nat \<times> nat) list" where
  "assignment_reported =
     [(1, 10), (2, 7), (3, 5), (4, 1), (5, 9), (6, 4), (7, 2), (8, 6), (9, 3), (10, 8)]"

definition reported_task :: "nat \<Rightarrow> nat" where
  "reported_task i = (case map_of assignment_reported i of Some j \<Rightarrow> j | None \<Rightarrow> i)"

text \<open>
  The printing cell: for each resource the inner loop prints the first task whose
  variable exceeds 0.1 and breaks.
\<close>

definition assignment_line :: "nat \<Rightarrow> nat \<Rightarrow> string" where
  "assignment_line i j = '' - Resource '' @ str_nat i @ '' -> Task '' @ str_nat j"

fun first_task :: "((nat \<times> nat) \<Rightarrow> rat) \<Rightarrow> nat \<Rightarrow> nat list \<Rightarrow> string list \<Rightarrow> py_error + string list" where
  "first_task x i [] out = Inr out"
| "first_task x i (j # js) out =
     (case getitem assignment_X (i, j) of Inl err \<Rightarrow> Inl err
      | Inr k \<Rightarrow> if x k > 0.1 then Inr (out @ [assignment_line i j]) else first_task x i js out)"

definition assignment_report :: "((nat \<times> nat) \<Rightarrow> rat) \<Rightarrow> py_error + string list" where
  "assignment_report x =
     for_each assignment_M (\<lambda>i out. first_task x i assignment_N out) report_header"

section \<open>Notions used to state the properties\<close>

text \<open>
  \<open>item d k\<close> is the number \<open>d[k]\<close> of a dictionary that holds \<open>k\<close>; every use below is
  at a key the dictionary holds.
\<close>

definition item :: "('k \<times> rat) list \<Rightarrow> 'k \<Rightarrow> rat" where
  "item d k = (case dict_get d k of Inl err \<Rightarrow> 0 | Inr a \<Rightarrow> a)"

text \<open>The total cost of sending each resource \<open>i\<close> to the task \<open>f i\<close>.\<close>

definition matching_cost :: "((nat \<times> nat) \<times> rat) list \<Rightarrow> (nat \<Rightarrow> nat) \<Rightarrow> rat" where
  "matching_cost c f = (\<Sum>i\<leftarrow>assignment_M. item c (i, f i))"

text \<open>The 0/1 solution that selects exactly the pairs of a matching.\<close>

definition matching_solution :: "(nat \<Rightarrow> nat) \<Rightarrow> nat \<times> nat \<Rightarrow> rat" where
  "matching_solution f k = (if snd k = f (fst k) then 1 else 0)"

text \<open>
  All selections from a list of (value, weight, item) triples that fit a capacity and
  reach a threshold; used to go through the selections of the knapsack instance.
\<close>

fun selections :: "(rat \<times> rat \<times> nat) list \<Rightarrow> rat \<Rightarrow> rat \<Rightarrow> nat list list" where
  "selections [] cap thr = (if 0 \<le> cap \<and> thr \<le> 0 then [[]] else [])"
| "selections (t # ts) cap thr =
     map ((#) (snd (snd t))) (selections ts (cap - fst (snd t)) (thr - fst t)) @
     selections ts cap thr"

text \<open>
  Task prices that certify the recorded matching: moving a resource from its recorded
  task to another one costs at least the price difference, with a margin.
\<close>

definition task_price :: "rat list" where
  "task_price = [-0.58, 0, -0.89, -2.62, -3.10, -2.32, -2.92, -1.94, 0, -2.16]"

definition price :: "nat \<Rightarrow> rat" where
  "price j = task_price ! (j - 1)"

text \<open>
  The number of the draw that gives \<open>c[i, j]\<close>: the comprehension goes through the
  pairs row by row.
\<close>

definition draw_index :: "nat \<times> nat \<Rightarrow> nat" where
  "draw_index k = SIZE * (fst k - 1) + (snd k - 1)"

text \<open>
  The recorded samples are printed decimals of the floats drawn; the properties of the
  cost matrix are stated for every sequence of samples this close to the record.
\<close>

definition draw_tolerance :: rat where
  "draw_tolerance = 1 / 10 ^ 9"

definition close_to_record :: "(nat \<Rightarrow> rat) \<Rightarrow> bool" where
  "close_to_record uniform =
     list_all (\<lambda>n. \<bar>uniform n - recorded_uniform ! n\<bar> \<le> draw_tolerance) [0..<SIZE * SIZE]"

section \<open>Loops and dictionaries\<close>

lemma for_each_append:
  assumes "\<And>a e. a \<in> set xs \<Longrightarrow> body a e = Inr (e @ t a)"
  shows "for_each xs body e = Inr (e @ concat (map t xs))"
  using assms by (induction xs arbitrary: e) simp_all

lemma dict_get_item: "k \<in> dict_keys d \<Longrightarrow> dict_get d k = Inr (item d k)"
proof -
  assume "k \<in> dict_keys d"
  then have "map_of (rev d) k \<noteq> None"
    by (simp add: dict_keys_def map_of_eq_None_iff)
  then show ?thesis
    by (auto simp: item_def dict_get_def split: option.splits)
qed

lemma dict_get_distinct:
  "distinct (map fst d) \<Longrightarrow> (k, a) \<in> set d \<Longrightarrow> dict_get d k = Inr a"
proof -
  assume "distinct (map fst d)" and "(k, a) \<in> set d"
  then have "map_of (rev d) k = Some a"
    by (simp add: rev_map [symmetric])
  then show ?thesis by (simp add: dict_get_def)
qed

lemma item_distinct:
  "distinct (map fst d) \<Longrightarrow> (k, a) \<in> set d \<Longrightarrow> item d k = a"
  by (simp add: item_def dict_get_distinct)

section \<open>The knapsack model and its optimum\<close>

text \<open>
  The model the notebook builds is computed first. The optimum then follows from
  going through all selections that fit the capacity and reach the recorded value:
  there is exactly one.
\<close>

lemma knapsack_I_list: "knapsack_I = [1, 2, 3, 4, 5, 6, 7, 8, 9, 10]"
  unfolding knapsack_I_def by (simp add: upt_rec)

lemma set_knapsack_I: "set knapsack_I = {1..10}"
  unfolding knapsack_I_def by auto

lemma keys_knapsack_v: "dict_keys knapsack_v = set knapsack_I"
  by (simp add: dict_keys_def knapsack_v_def knapsack_I_list)

lemma keys_knapsack_w: "dict_keys knapsack_w = set knapsack_I"
  by (simp add: dict_keys_def knapsack_w_def knapsack_I_list)

lemma knapsack_sum_built:
  assumes "set knapsack_I \<subseteq> dict_keys d"
  shows "knapsack_sum d = Inr (map (\<lambda>i. (item d i, i)) knapsack_I)"
proof -
  have "knapsack_sum d = Inr (LinExpr @ concat (map (\<lambda>i. [(item d i, i)]) knapsack_I))"
    unfolding knapsack_sum_def
    by (rule for_each_append)
      (use assms in \<open>auto simp: dict_get_item getitem_def knapsack_X_def LinExpr_add_def var_times_def\<close>)
  then show ?thesis
    by (simp add: LinExpr_def concat_map_singleton)
qed

lemma knapsack_model_built:
  "knapsack_model = Inr
     \<lparr>mname = ''Knapsack-Problem'',
      mvars = map (\<lambda>k. (k, BINARY, ''X'')) knapsack_I,
      objective = map (\<lambda>i. (item knapsack_v i, i)) knapsack_I,
      msense = MAXIMIZE,
      constrs = [\<lparr>lhs = map (\<lambda>i. (item knapsack_w i, i)) knapsack_I, rel = LESS_EQUAL,
                  rhs = knapsack_b, cname = ''capacity_constraint''\<rparr>]\<rparr>"
  by (simp add: knapsack_model_def knapsack_sum_built keys_knapsack_v keys_knapsack_w
      addVars_def Model_def setObjective_def addConstr_def)

lemma eval_linexpr_map: "eval_linexpr x (map (\<lambda>i. (a i, k i)) xs) = (\<Sum>i\<leftarrow>xs. a i * x (k i))"
  by (simp add: eval_linexpr_def comp_def)

lemma knapsack_items:
  "map (\<lambda>i. (item knapsack_v i, item knapsack_w i, i)) knapsack_I =
     [(5.94, 8.13, 1), (7.44, 5.76, 2), (6.42, 6.11, 3), (5.9, 9.33, 4), (4.81, 1.64, 5),
      (6.81, 1.78, 6), (4.94, 1.18, 7), (9.03, 8.49, 8), (9.67, 8.0, 9), (4.45, 8.83, 10)]"
  by (simp add: knapsack_I_list item_def dict_get_def knapsack_v_def knapsack_w_def)

lemma selections_complete:
  "(\<Sum>t\<leftarrow>filter P ts. fst (snd t)) \<le> cap \<Longrightarrow> thr \<le> (\<Sum>t\<leftarrow>filter P ts. fst t) \<Longrightarrow>
     map (\<lambda>t. snd (snd t)) (filter P ts) \<in> set (selections ts cap thr)"
proof (induction ts arbitrary: cap thr)
  case Nil
  then show ?case by simp
next
  case (Cons t ts)
  show ?case
  proof (cases "P t")
    case True
    with Cons.prems have "(\<Sum>t\<leftarrow>filter P ts. fst (snd t)) \<le> cap - fst (snd t)"
      and "thr - fst t \<le> (\<Sum>t\<leftarrow>filter P ts. fst t)"
      by simp_all
    then have "map (\<lambda>t. snd (snd t)) (filter P ts) \<in> set (selections ts (cap - fst (snd t)) (thr - fst t))"
      by (rule Cons.IH)
    with True show ?thesis by simp
  next
    case False
    with Cons.prems Cons.IH [of cap thr] show ?thesis by simp
  qed
qed

lemma knapsack_selections:
  "selections (map (\<lambda>i. (item knapsack_v i, item knapsack_w i, i)) knapsack_I) knapsack_b knapsack_ObjVal
     = [[2, 3, 5, 6, 7, 9]]"
  unfolding knapsack_items knapsack_b_def knapsack_ObjVal_def by simp

lemma knapsack_best_selection:
  assumes "(\<Sum>i\<leftarrow>filter Q knapsack_I. item knapsack_w i) \<le> knapsack_b"
    and "knapsack_ObjVal \<le> (\<Sum>i\<leftarrow>filter Q knapsack_I. item knapsack_v i)"
  shows "filter Q knapsack_I = [2, 3, 5, 6, 7, 9]"
proof -
  let ?triple = "\<lambda>i. (item knapsack_v i, item knapsack_w i, i)"
  let ?P = "\<lambda>t. Q (snd (snd t))"
  have sel: "filter ?P (map ?triple knapsack_I) = map ?triple (filter Q knapsack_I)"
    by (simp add: filter_map comp_def)
  have "map (\<lambda>t. snd (snd t)) (filter ?P (map ?triple knapsack_I))
          \<in> set (selections (map ?triple knapsack_I) knapsack_b knapsack_ObjVal)"
    by (rule selections_complete) (use assms in \<open>simp_all add: sel comp_def\<close>)
  then show ?thesis
    by (simp add: sel comp_def knapsack_selections)
qed

lemma reported_value:
  "(\<Sum>i\<leftarrow>[2, 3, 5, 6, 7, 9]. item knapsack_v i) = knapsack_ObjVal"
  by (simp add: item_def dict_get_def knapsack_v_def knapsack_ObjVal_def)

lemma reported_weight:
  "(\<Sum>i\<leftarrow>[2, 3, 5, 6, 7, 9]. item knapsack_w i) \<le> knapsack_b"
  by (simp add: item_def dict_get_def knapsack_w_def knapsack_b_def)

lemma knapsack_value_bound:
  assumes "(\<Sum>i\<leftarrow>filter Q knapsack_I. item knapsack_w i) \<le> knapsack_b"
  shows "(\<Sum>i\<leftarrow>filter Q knapsack_I. item knapsack_v i) \<le> knapsack_ObjVal"
proof (rule ccontr)
  assume "\<not> ?thesis"
  then have less: "knapsack_ObjVal < (\<Sum>i\<leftarrow>filter Q knapsack_I. item knapsack_v i)" by simp
  then have "filter Q knapsack_I = [2, 3, 5, 6, 7, 9]"
    using assms by (intro knapsack_best_selection) simp_all
  with less reported_value show False by simp
qed

lemma binary_sum:
  "\<forall>i\<in>set xs. x i = 0 \<or> x i = (1::rat) \<Longrightarrow>
     (\<Sum>i\<leftarrow>xs. a i * x i) = (\<Sum>i\<leftarrow>filter (\<lambda>i. x i = 1) xs. a i)"
  by (induction xs) auto

lemma knapsack_feasible_iff:
  assumes "knapsack_model = Inr m"
  shows "feasible m x \<longleftrightarrow>
     (\<forall>i\<in>set knapsack_I. x i = 0 \<or> x i = 1) \<and>
     (\<Sum>i\<leftarrow>knapsack_I. item knapsack_w i * x i) \<le> knapsack_b"
  using assms unfolding knapsack_model_built
  by (auto simp: feasible_def list_all_iff satisfies_def eval_linexpr_map)

lemma knapsack_objective:
  assumes "knapsack_model = Inr m"
  shows "eval_linexpr x (objective m) = (\<Sum>i\<leftarrow>knapsack_I. item knapsack_v i * x i)"
    and "msense m = MAXIMIZE"
  using assms unfolding knapsack_model_built
  by (auto simp: eval_linexpr_map)

lemma filter_reported: "filter (\<lambda>i. knapsack_reported i = 1) knapsack_I = [2, 3, 5, 6, 7, 9]"
  by (simp add: knapsack_I_list knapsack_reported_def)

lemma reported_binary: "knapsack_reported i = 0 \<or> knapsack_reported i = 1"
  by (simp add: knapsack_reported_def)

lemma sum_list_agree:
  "\<forall>i\<in>set xs. x i = y i \<Longrightarrow> (\<Sum>i\<leftarrow>xs. a i * x i) = (\<Sum>i\<leftarrow>xs. (a i * y i :: rat))"
  by (induction xs) auto

lemma reported_sums:
  "(\<Sum>i\<leftarrow>knapsack_I. item knapsack_v i * knapsack_reported i) = knapsack_ObjVal"
  "(\<Sum>i\<leftarrow>knapsack_I. item knapsack_w i * knapsack_reported i) \<le> knapsack_b"
proof -
  have bin: "\<forall>i\<in>set knapsack_I. knapsack_reported i = 0 \<or> knapsack_reported i = 1"
    using reported_binary by simp
  show "(\<Sum>i\<leftarrow>knapsack_I. item knapsack_v i * knapsack_reported i) = knapsack_ObjVal"
    unfolding binary_sum [OF bin] filter_reported by (rule reported_value)
  show "(\<Sum>i\<leftarrow>knapsack_I. item knapsack_w i * knapsack_reported i) \<le> knapsack_b"
    unfolding binary_sum [OF bin] filter_reported by (rule reported_weight)
qed

lemma knapsack_optimal_iff:
  assumes m: "knapsack_model = Inr m"
  shows "optimal m x \<longleftrightarrow> (\<forall>i\<in>set knapsack_I. x i = knapsack_reported i)"
proof
  assume opt: "optimal m x"
  then have feas: "feasible m x" by (simp add: optimal_def)
  then have bin: "\<forall>i\<in>set knapsack_I. x i = 0 \<or> x i = 1"
    and wt: "(\<Sum>i\<leftarrow>knapsack_I. item knapsack_w i * x i) \<le> knapsack_b"
    by (simp_all add: knapsack_feasible_iff [OF m])
  have "feasible m knapsack_reported"
    using reported_binary by (simp add: knapsack_feasible_iff [OF m] reported_sums)
  with opt have "knapsack_ObjVal \<le> (\<Sum>i\<leftarrow>knapsack_I. item knapsack_v i * x i)"
    by (auto simp: optimal_def knapsack_objective [OF m] reported_sums)
  with wt have "filter (\<lambda>i. x i = 1) knapsack_I = [2, 3, 5, 6, 7, 9]"
    by (intro knapsack_best_selection) (simp_all add: binary_sum [OF bin, symmetric])
  then have "set (filter (\<lambda>i. x i = 1) knapsack_I) = {2, 3, 5, 6, 7, 9}"
    by simp
  then have one: "\<forall>i\<in>set knapsack_I. x i = 1 \<longleftrightarrow> i \<in> {2, 3, 5, 6, 7, 9}"
    by auto
  show "\<forall>i\<in>set knapsack_I. x i = knapsack_reported i"
  proof
    fix i assume i: "i \<in> set knapsack_I"
    with bin have "x i = 0 \<or> x i = 1" by simp
    with one i show "x i = knapsack_reported i"
      unfolding knapsack_reported_def by (cases "x i = 1") auto
  qed
next
  assume agree: "\<forall>i\<in>set knapsack_I. x i = knapsack_reported i"
  then have v: "(\<Sum>i\<leftarrow>knapsack_I. item knapsack_v i * x i) = knapsack_ObjVal"
    and w: "(\<Sum>i\<leftarrow>knapsack_I. item knapsack_w i * x i) \<le> knapsack_b"
    by (simp_all add: sum_list_agree [OF agree] reported_sums)
  have bin: "\<forall>i\<in>set knapsack_I. x i = 0 \<or> x i = 1"
    using agree reported_binary by simp
  have feas: "feasible m x"
    using bin by (simp add: knapsack_feasible_iff [OF m] w)
  have "eval_linexpr y (objective m) \<le> eval_linexpr x (objective m)" if "feasible m y" for y
  proof -
    from that have ybin: "\<forall>i\<in>set knapsack_I. y i = 0 \<or> y i = 1"
      and ywt: "(\<Sum>i\<leftarrow>knapsack_I. item knapsack_w i * y i) \<le> knapsack_b"
      by (simp_all add: knapsack_feasible_iff [OF m])
    from ywt have "(\<Sum>i\<leftarrow>filter (\<lambda>i. y i = 1) knapsack_I. item knapsack_v i) \<le> knapsack_ObjVal"
      by (intro knapsack_value_bound) (simp add: binary_sum [OF ybin, symmetric])
    then show ?thesis
      by (simp add: knapsack_objective [OF m] v binary_sum [OF ybin])
  qed
  with feas show "optimal m x"
    by (simp add: optimal_def knapsack_objective(2) [OF m])
qed

lemma distinct_knapsack_I: "distinct knapsack_I"
  by (simp add: knapsack_I_def)

text \<open>
  Claim C7. The knapsack data satisfy the data-model invariant: the value and weight
  dictionaries are defined on exactly the item set \<open>I = {1, ..., 10}\<close>, with one entry
  per item, every value and every weight is positive, and the capacity \<open>b = 26.66\<close>
  is non-negative.
\<close>
theorem knapsack_data_invariant:
  "set knapsack_I = {1..10} \<and>
   dict_keys knapsack_v = set knapsack_I \<and> dict_keys knapsack_w = set knapsack_I \<and>
   distinct (map fst knapsack_v) \<and> distinct (map fst knapsack_w) \<and>
   (\<forall>i\<in>set knapsack_I. dict_get knapsack_v i = Inr (item knapsack_v i) \<and> 0 < item knapsack_v i) \<and>
   (\<forall>i\<in>set knapsack_I. dict_get knapsack_w i = Inr (item knapsack_w i) \<and> 0 < item knapsack_w i) \<and>
   knapsack_b = 26.66 \<and> 0 \<le> knapsack_b"
proof -
  have "distinct (map fst knapsack_v)" "distinct (map fst knapsack_w)"
    by (simp_all add: knapsack_v_def knapsack_w_def)
  moreover have "\<forall>i\<in>set knapsack_I. 0 < item knapsack_v i"
    by (simp add: knapsack_I_list item_def dict_get_def knapsack_v_def)
  moreover have "\<forall>i\<in>set knapsack_I. 0 < item knapsack_w i"
    by (simp add: knapsack_I_list item_def dict_get_def knapsack_w_def)
  moreover have "knapsack_b = 26.66 \<and> 0 \<le> knapsack_b"
    by (simp add: knapsack_b_def)
  ultimately show ?thesis
    using set_knapsack_I keys_knapsack_v keys_knapsack_w
    by (simp add: dict_get_item)
qed

theorem knapsack_data_invariant_witness:
  "3 \<in> set knapsack_I \<and> dict_get knapsack_v 3 = Inr (item knapsack_v 3) \<and> 0 < item knapsack_v 3 \<and>
   dict_get knapsack_w 3 = Inr (item knapsack_w 3) \<and> 0 < item knapsack_w 3"
  using knapsack_data_invariant by (simp add: knapsack_I_list)

lemma sum_knapsack_I: "(\<Sum>i\<leftarrow>knapsack_I. f i) = (\<Sum>i\<in>set knapsack_I. (f i :: rat))"
  by (rule sum_list_distinct_conv_sum_set) (rule distinct_knapsack_I)

text \<open>
  Claim C6. The model the knapsack notebook builds is the stated formulation: it
  maximises the sum over \<open>I\<close> of \<open>v\<^sub>i X\<^sub>i\<close>, it has exactly one constraint, which bounds
  the sum over \<open>I\<close> of \<open>w\<^sub>i X\<^sub>i\<close> by \<open>b\<close>, and its variables are exactly the \<open>X\<^sub>i\<close> for
  \<open>i\<close> in \<open>I\<close>, all binary. So a solution is feasible exactly when it is 0/1 on \<open>I\<close>
  and within the capacity.
\<close>
theorem knapsack_model_is_formulation:
  "\<exists>m c. knapsack_model = Inr m \<and>
     msense m = MAXIMIZE \<and>
     (\<forall>x. eval_linexpr x (objective m) = (\<Sum>i\<in>set knapsack_I. item knapsack_v i * x i)) \<and>
     constrs m = [c] \<and> rel c = LESS_EQUAL \<and> rhs c = knapsack_b \<and>
     (\<forall>x. eval_linexpr x (lhs c) = (\<Sum>i\<in>set knapsack_I. item knapsack_w i * x i)) \<and>
     map fst (mvars m) = knapsack_I \<and> (\<forall>d\<in>set (mvars m). fst (snd d) = BINARY) \<and>
     (\<forall>x. feasible m x \<longleftrightarrow>
        (\<forall>i\<in>set knapsack_I. x i = 0 \<or> x i = 1) \<and>
        (\<Sum>i\<in>set knapsack_I. item knapsack_w i * x i) \<le> knapsack_b)"
proof -
  obtain m where m: "knapsack_model = Inr m"
    using knapsack_model_built by blast
  let ?c = "\<lparr>lhs = map (\<lambda>i. (item knapsack_w i, i)) knapsack_I, rel = LESS_EQUAL,
      rhs = knapsack_b, cname = ''capacity_constraint''\<rparr>"
  have c: "constrs m = [?c]"
    using m unfolding knapsack_model_built by auto
  have vars: "map fst (mvars m) = knapsack_I" "\<forall>d\<in>set (mvars m). fst (snd d) = BINARY"
    using m unfolding knapsack_model_built by (auto simp: comp_def)
  have obj: "\<forall>x. eval_linexpr x (objective m) = (\<Sum>i\<in>set knapsack_I. item knapsack_v i * x i)"
    by (simp add: knapsack_objective(1) [OF m] sum_knapsack_I)
  have lhs: "\<forall>x. eval_linexpr x (lhs ?c) = (\<Sum>i\<in>set knapsack_I. item knapsack_w i * x i)"
    by (simp add: eval_linexpr_map sum_knapsack_I)
  have feas: "\<forall>x. feasible m x \<longleftrightarrow>
        (\<forall>i\<in>set knapsack_I. x i = 0 \<or> x i = 1) \<and>
        (\<Sum>i\<in>set knapsack_I. item knapsack_w i * x i) \<le> knapsack_b"
    by (simp add: knapsack_feasible_iff [OF m] sum_knapsack_I)
  have "rel ?c = LESS_EQUAL" "rhs ?c = knapsack_b" by simp_all
  with m c vars obj lhs feas knapsack_objective(2) [OF m] show ?thesis
    by blast
qed

theorem knapsack_model_is_formulation_witness:
  "\<exists>m. knapsack_model = Inr m \<and> feasible m knapsack_reported \<and>
     eval_linexpr knapsack_reported (objective m) =
       (\<Sum>i\<in>set knapsack_I. item knapsack_v i * knapsack_reported i)"
proof -
  have "(\<Sum>i\<in>set knapsack_I. item knapsack_w i * knapsack_reported i) \<le> knapsack_b"
    using reported_sums(2) by (simp add: sum_knapsack_I)
  then show ?thesis
    using knapsack_model_is_formulation reported_binary by auto
qed

text \<open>
  Claim C1. For the knapsack instance of the notebook the optimal solutions are exactly
  those that select the items 2, 3, 5, 6, 7 and 9 and no other item of \<open>I\<close>; their
  objective value is the recorded 40.09, which is the exact rational sum
  \<open>7.44 + 6.42 + 4.81 + 6.81 + 4.94 + 9.67\<close> of the values of those items.
\<close>
theorem knapsack_optimal_selection:
  "\<exists>m. knapsack_model = Inr m \<and>
     (\<forall>x. optimal m x \<longleftrightarrow> (\<forall>i\<in>set knapsack_I. x i = knapsack_reported i)) \<and>
     (\<forall>x. optimal m x \<longrightarrow> eval_linexpr x (objective m) = knapsack_ObjVal) \<and>
     knapsack_ObjVal = 40.09 \<and>
     (\<Sum>i\<in>{2, 3, 5, 6, 7, 9}. item knapsack_v i) = knapsack_ObjVal \<and>
     7.44 + 6.42 + 4.81 + 6.81 + 4.94 + 9.67 = (40.09 :: rat)"
proof -
  obtain m where m: "knapsack_model = Inr m"
    using knapsack_model_built by blast
  have val: "eval_linexpr x (objective m) = knapsack_ObjVal" if "optimal m x" for x
  proof -
    from that have "\<forall>i\<in>set knapsack_I. x i = knapsack_reported i"
      by (simp add: knapsack_optimal_iff [OF m])
    then have "(\<Sum>i\<leftarrow>knapsack_I. item knapsack_v i * x i) =
        (\<Sum>i\<leftarrow>knapsack_I. item knapsack_v i * knapsack_reported i)"
      by (rule sum_list_agree)
    then show ?thesis
      by (simp add: knapsack_objective(1) [OF m] reported_sums(1))
  qed
  have "(\<Sum>i\<in>set [2, 3, 5, 6, 7, 9]. item knapsack_v i) = knapsack_ObjVal"
    unfolding reported_value [symmetric]
    by (rule sum_list_distinct_conv_sum_set [symmetric]) simp
  then have six: "(\<Sum>i\<in>{2, 3, 5, 6, 7, 9}. item knapsack_v i) = knapsack_ObjVal"
    by simp
  have sum: "7.44 + 6.42 + 4.81 + 6.81 + 4.94 + 9.67 = (40.09 :: rat)"
    by simp
  have obj: "knapsack_ObjVal = 40.09"
    by (simp add: knapsack_ObjVal_def)
  have iff: "\<forall>x. optimal m x \<longleftrightarrow> (\<forall>i\<in>set knapsack_I. x i = knapsack_reported i)"
    using knapsack_optimal_iff [OF m] by blast
  from val have "\<forall>x. optimal m x \<longrightarrow> eval_linexpr x (objective m) = knapsack_ObjVal"
    by blast
  with m iff obj six sum show ?thesis
    by blast
qed

theorem knapsack_optimal_selection_witness:
  "\<exists>m. knapsack_model = Inr m \<and> optimal m knapsack_reported \<and>
     eval_linexpr knapsack_reported (objective m) = knapsack_ObjVal"
  using knapsack_optimal_selection by auto

text \<open>
  Claim C2. Every subset \<open>S\<close> of the items whose total weight is at most the capacity
  \<open>b = 26.66\<close> has total value at most the reported optimum 40.09.
\<close>
theorem knapsack_optimum_bounds_selections:
  assumes "S \<subseteq> set knapsack_I"
    and "(\<Sum>i\<in>S. item knapsack_w i) \<le> knapsack_b"
  shows "(\<Sum>i\<in>S. item knapsack_v i) \<le> knapsack_ObjVal \<and> knapsack_ObjVal = 40.09"
proof -
  let ?ys = "filter (\<lambda>i. i \<in> S) knapsack_I"
  have S: "set ?ys = S" using assms(1) by auto
  have "distinct ?ys" by (simp add: distinct_knapsack_I)
  then have conv: "(\<Sum>i\<leftarrow>?ys. f i) = (\<Sum>i\<in>S. f i)" for f :: "nat \<Rightarrow> rat"
    using sum_list_distinct_conv_sum_set [of ?ys f] by (simp only: S)
  have "(\<Sum>i\<leftarrow>?ys. item knapsack_v i) \<le> knapsack_ObjVal"
    by (rule knapsack_value_bound) (simp only: conv assms(2))
  then show ?thesis
    by (simp only: conv) (simp add: knapsack_ObjVal_def)
qed

theorem knapsack_optimum_bounds_selections_witness:
  "{1, 5, 8} \<subseteq> set knapsack_I \<and> (\<Sum>i\<in>{1, 5, 8}. item knapsack_w i) \<le> knapsack_b \<and>
   (\<Sum>i\<in>{1, 5, 8}. item knapsack_v i) \<le> knapsack_ObjVal"
proof -
  have sub: "{1, 5, 8} \<subseteq> set knapsack_I"
    by (simp add: knapsack_I_list)
  have wt: "(\<Sum>i\<in>{1, 5, 8}. item knapsack_w i) \<le> knapsack_b"
    by (simp add: item_def dict_get_def knapsack_w_def knapsack_b_def)
  show ?thesis
    using sub wt knapsack_optimum_bounds_selections [OF sub wt] by simp
qed

text \<open>
  Claim C3. Every 0/1 solution that satisfies the single capacity constraint of the
  knapsack model has total selected weight at most \<open>b\<close>. The reported selection
  \<open>{2, 3, 5, 6, 7, 9}\<close> is such a solution; its weight is
  \<open>5.76 + 6.11 + 1.64 + 1.78 + 1.18 + 8.0 = 24.47\<close>, which does not exceed 26.66.
\<close>
theorem knapsack_capacity_respected:
  "\<exists>m. knapsack_model = Inr m \<and> length (constrs m) = 1 \<and>
     (\<forall>x. feasible m x \<longrightarrow> (\<Sum>i\<in>set knapsack_I. item knapsack_w i * x i) \<le> knapsack_b) \<and>
     feasible m knapsack_reported \<and>
     (\<Sum>i\<in>set knapsack_I. item knapsack_w i * knapsack_reported i) = 24.47 \<and>
     5.76 + 6.11 + 1.64 + 1.78 + 1.18 + 8.0 = (24.47 :: rat) \<and>
     (24.47 :: rat) \<le> knapsack_b \<and> knapsack_b = 26.66"
proof -
  obtain m where m: "knapsack_model = Inr m"
    using knapsack_model_built by blast
  have one: "length (constrs m) = 1"
    using m unfolding knapsack_model_built by auto
  have bin: "\<forall>i\<in>set knapsack_I. knapsack_reported i = 0 \<or> knapsack_reported i = 1"
    using reported_binary by simp
  have feas: "feasible m knapsack_reported"
    using bin by (simp add: knapsack_feasible_iff [OF m] reported_sums(2))
  have "(\<Sum>i\<leftarrow>[2, 3, 5, 6, 7, 9]. item knapsack_w i) = 24.47"
    by (simp add: item_def dict_get_def knapsack_w_def)
  then have "(\<Sum>i\<leftarrow>knapsack_I. item knapsack_w i * knapsack_reported i) = 24.47"
    by (simp only: binary_sum [OF bin] filter_reported)
  then have wt: "(\<Sum>i\<in>set knapsack_I. item knapsack_w i * knapsack_reported i) = 24.47"
    by (simp only: sum_knapsack_I)
  have "5.76 + 6.11 + 1.64 + 1.78 + 1.18 + 8.0 = (24.47 :: rat)"
    "(24.47 :: rat) \<le> knapsack_b" "knapsack_b = 26.66"
    by (simp_all add: knapsack_b_def)
  moreover have "\<forall>x. feasible m x \<longrightarrow>
      (\<Sum>i\<in>set knapsack_I. item knapsack_w i * x i) \<le> knapsack_b"
    by (simp add: knapsack_feasible_iff [OF m] sum_knapsack_I)
  ultimately show ?thesis
    using m one feas wt by blast
qed

theorem knapsack_capacity_respected_witness:
  "\<exists>m. knapsack_model = Inr m \<and> feasible m knapsack_reported \<and>
     (\<Sum>i\<in>set knapsack_I. item knapsack_w i * knapsack_reported i) \<le> knapsack_b"
  using knapsack_capacity_respected by blast

section \<open>0/1 matrices with unit row and column sums\<close>

lemma binary_sum_card:
  fixes y :: "'a \<Rightarrow> rat"
  assumes "finite B" and "\<forall>j\<in>B. y j = 0 \<or> y j = 1"
  shows "(\<Sum>j\<in>B. y j) = of_nat (card {j \<in> B. y j = 1})"
proof -
  have "(\<Sum>j\<in>B. y j) = (\<Sum>j\<in>B. if y j = 1 then 1 else 0)"
    by (rule sum.cong) (use assms(2) in auto)
  also have "\<dots> = (\<Sum>j\<in>{j \<in> B. y j = 1}. 1)"
    by (rule sum.inter_filter [symmetric, OF assms(1)])
  finally show ?thesis by simp
qed

lemma binary_sum_one:
  fixes y :: "'a \<Rightarrow> rat"
  assumes "finite B" and "\<forall>j\<in>B. y j = 0 \<or> y j = 1" and "(\<Sum>j\<in>B. y j) = 1"
  shows "\<exists>!j. j \<in> B \<and> y j = 1"
proof -
  have "card {j \<in> B. y j = 1} = 1"
    using binary_sum_card [OF assms(1,2)] assms(3) by simp
  then obtain k where "{j \<in> B. y j = 1} = {k}"
    by (auto simp: card_1_singleton_iff)
  then have "\<And>j. (j \<in> B \<and> y j = 1) = (j = k)"
    by blast
  then show ?thesis by metis
qed

lemma one_binary_sum:
  fixes y :: "'a \<Rightarrow> rat"
  assumes "finite B" and "\<forall>j\<in>B. y j = 0 \<or> y j = 1" and "\<exists>!j. j \<in> B \<and> y j = 1"
  shows "(\<Sum>j\<in>B. y j) = 1"
proof -
  from assms(3) obtain k where "{j \<in> B. y j = 1} = {k}" by auto
  then show ?thesis
    using binary_sum_card [OF assms(1,2)] by simp
qed

lemma matching_bijection:
  fixes x :: "'a \<times> 'b \<Rightarrow> rat"
  assumes fin: "finite A" "finite B"
    and bin: "\<forall>i\<in>A. \<forall>j\<in>B. x (i, j) = 0 \<or> x (i, j) = 1"
    and rows: "\<forall>i\<in>A. (\<Sum>j\<in>B. x (i, j)) = 1"
    and cols: "\<forall>j\<in>B. (\<Sum>i\<in>A. x (i, j)) = 1"
  shows "\<exists>f. bij_betw f A B \<and> (\<forall>i\<in>A. \<forall>j\<in>B. x (i, j) = 1 \<longleftrightarrow> j = f i)"
proof -
  have row1: "\<exists>!j. j \<in> B \<and> x (i, j) = 1" if "i \<in> A" for i
    using that bin rows by (intro binary_sum_one fin) auto
  have col1: "\<exists>!i. i \<in> A \<and> x (i, j) = 1" if "j \<in> B" for j
    using that bin cols by (intro binary_sum_one fin) auto
  define f where "f i = (THE j. j \<in> B \<and> x (i, j) = 1)" for i
  have f: "f i \<in> B \<and> x (i, f i) = 1" if "i \<in> A" for i
    unfolding f_def using row1 [OF that] by (rule theI')
  have f_unique: "j = f i" if "i \<in> A" "j \<in> B" "x (i, j) = 1" for i j
    using row1 [OF that(1)] that f [OF that(1)] by blast
  have "inj_on f A"
  proof (rule inj_onI)
    fix i i' assume "i \<in> A" "i' \<in> A" "f i = f i'"
    with f [of i] f [of i'] col1 [of "f i"] show "i = i'" by auto
  qed
  moreover have "f ` A = B"
  proof
    show "f ` A \<subseteq> B" using f by auto
    show "B \<subseteq> f ` A"
    proof
      fix j assume j: "j \<in> B"
      then obtain i where "i \<in> A" "x (i, j) = 1" using col1 by blast
      with j f_unique show "j \<in> f ` A" by blast
    qed
  qed
  ultimately have "bij_betw f A B" by (simp add: bij_betw_def)
  moreover have "\<forall>i\<in>A. \<forall>j\<in>B. x (i, j) = 1 \<longleftrightarrow> j = f i"
    using f f_unique by blast
  ultimately show ?thesis by blast
qed

section \<open>The assignment model\<close>

lemma assignment_N_M: "assignment_N = assignment_M"
  by (simp add: assignment_N_def assignment_M_def)

lemma set_assignment_M: "set assignment_M = {1..10}"
  by (auto simp: assignment_M_def SIZE_def)

lemma distinct_assignment_M: "distinct assignment_M"
  by (simp add: assignment_M_def)

lemma length_assignment_M: "length assignment_M = 10"
  by (simp add: assignment_M_def SIZE_def)

lemma getitem_assignment_X:
  "i \<in> set assignment_M \<Longrightarrow> j \<in> set assignment_M \<Longrightarrow> getitem assignment_X (i, j) = Inr (i, j)"
  by (simp add: getitem_def assignment_X_def assignment_N_M)

lemma for_each_pure:
  assumes "\<And>a s. a \<in> set xs \<Longrightarrow> body a s = Inr (g a s)"
  shows "for_each xs body s = Inr (foldl (\<lambda>s a. g a s) s xs)"
  using assms by (induction xs arbitrary: s) simp_all

lemma foldl_addConstr:
  "foldl (\<lambda>m a. addConstr (e a, r, b) (nm a) m) m xs =
     m\<lparr>constrs := constrs m @ map (\<lambda>a. \<lparr>lhs = e a, rel = r, rhs = b, cname = nm a\<rparr>) xs\<rparr>"
  by (induction xs arbitrary: m) (simp_all add: addConstr_def)

lemma unit_sum_built:
  assumes "\<And>a. a \<in> set xs \<Longrightarrow> getitem assignment_X (k a) = Inr (k a)"
  shows "for_each xs
           (\<lambda>a e. case getitem assignment_X (k a) of Inl err \<Rightarrow> Inl err
                  | Inr q \<Rightarrow> Inr (LinExpr_add e (var_times 1 q)))
           LinExpr = Inr (map (\<lambda>a. (1, k a)) xs)"
proof -
  have "for_each xs
           (\<lambda>a e. case getitem assignment_X (k a) of Inl err \<Rightarrow> Inl err
                  | Inr q \<Rightarrow> Inr (LinExpr_add e (var_times 1 q)))
           LinExpr = Inr (LinExpr @ concat (map (\<lambda>a. [(1, k a)]) xs))"
    by (rule for_each_append) (simp add: assms LinExpr_add_def var_times_def)
  then show ?thesis
    by (simp add: LinExpr_def concat_map_singleton)
qed

lemma task_constraints_built:
  "task_constraints m = Inr (m\<lparr>constrs := constrs m @
     map (\<lambda>j. \<lparr>lhs = map (\<lambda>i. (1, (i, j))) assignment_M, rel = EQUAL, rhs = 1,
               cname = ''task_'' @ str_nat j @ ''_assigned_to_one_resource''\<rparr>) assignment_N\<rparr>)"
proof -
  have inner: "for_each assignment_M
      (\<lambda>i i_sum. case getitem assignment_X (i, j) of Inl err \<Rightarrow> Inl err
                 | Inr k \<Rightarrow> Inr (LinExpr_add i_sum (var_times 1 k)))
      LinExpr = Inr (map (\<lambda>i. (1, (i, j))) assignment_M)" if "j \<in> set assignment_N" for j
    using that by (intro unit_sum_built) (simp add: getitem_assignment_X assignment_N_M)
  have "task_constraints m = Inr (foldl (\<lambda>m j. addConstr
      (map (\<lambda>i. (1, (i, j))) assignment_M, EQUAL, 1)
      (''task_'' @ str_nat j @ ''_assigned_to_one_resource'') m) m assignment_N)"
    unfolding task_constraints_def by (rule for_each_pure) (simp add: inner)
  then show ?thesis
    by (simp only: foldl_addConstr)
qed

lemma resource_constraints_built:
  "resource_constraints m = Inr (m\<lparr>constrs := constrs m @
     map (\<lambda>i. \<lparr>lhs = map (\<lambda>j. (1, (i, j))) assignment_N, rel = EQUAL, rhs = 1,
               cname = ''resource_'' @ str_nat i @ ''_assigned_to_one_task''\<rparr>) assignment_M\<rparr>)"
proof -
  have inner: "for_each assignment_N
      (\<lambda>j j_sum. case getitem assignment_X (i, j) of Inl err \<Rightarrow> Inl err
                 | Inr k \<Rightarrow> Inr (LinExpr_add j_sum (var_times 1 k)))
      LinExpr = Inr (map (\<lambda>j. (1, (i, j))) assignment_N)" if "i \<in> set assignment_M" for i
    using that by (intro unit_sum_built) (simp add: getitem_assignment_X assignment_N_M)
  have "resource_constraints m = Inr (foldl (\<lambda>m i. addConstr
      (map (\<lambda>j. (1, (i, j))) assignment_N, EQUAL, 1)
      (''resource_'' @ str_nat i @ ''_assigned_to_one_task'') m) m assignment_M)"
    unfolding resource_constraints_def by (rule for_each_pure) (simp add: inner)
  then show ?thesis
    by (simp only: foldl_addConstr)
qed

lemma assignment_c_keys:
  "map fst (assignment_c u) = List.product assignment_M assignment_N"
  by (simp add: assignment_c_def Let_def)

lemma dict_keys_assignment_c: "dict_keys (assignment_c u) = set assignment_M \<times> set assignment_N"
  unfolding dict_keys_def set_map [symmetric] assignment_c_keys by simp

lemma distinct_assignment_c: "distinct (map fst (assignment_c u))"
  unfolding assignment_c_keys
  by (simp add: distinct_product distinct_assignment_M assignment_N_M)

lemma assignment_total_cost_built:
  "assignment_total_cost (assignment_c u) =
     Inr (concat (map (\<lambda>i. map (\<lambda>j. (item (assignment_c u) (i, j), (i, j))) assignment_M) assignment_N))"
proof -
  let ?c = "assignment_c u"
  have inner: "for_each assignment_M
      (\<lambda>j total_cost. case dict_get ?c (i, j) of Inl err \<Rightarrow> Inl err
         | Inr a \<Rightarrow> (case getitem assignment_X (i, j) of Inl err \<Rightarrow> Inl err
                    | Inr k \<Rightarrow> Inr (LinExpr_add total_cost (var_times a k))))
      e = Inr (e @ map (\<lambda>j. (item ?c (i, j), (i, j))) assignment_M)"
    if "i \<in> set assignment_N" for i e
  proof -
    have "for_each assignment_M
      (\<lambda>j total_cost. case dict_get ?c (i, j) of Inl err \<Rightarrow> Inl err
         | Inr a \<Rightarrow> (case getitem assignment_X (i, j) of Inl err \<Rightarrow> Inl err
                    | Inr k \<Rightarrow> Inr (LinExpr_add total_cost (var_times a k))))
      e = Inr (e @ concat (map (\<lambda>j. [(item ?c (i, j), (i, j))]) assignment_M))"
      using that
      by (intro for_each_append)
        (simp add: dict_get_item dict_keys_assignment_c getitem_assignment_X assignment_N_M
          LinExpr_add_def var_times_def)
    then show ?thesis by (simp add: concat_map_singleton)
  qed
  have "assignment_total_cost ?c = Inr (LinExpr @
      concat (map (\<lambda>i. map (\<lambda>j. (item ?c (i, j), (i, j))) assignment_M) assignment_N))"
    unfolding assignment_total_cost_def by (rule for_each_append) (simp add: inner)
  then show ?thesis by (simp add: LinExpr_def)
qed

lemma assignment_model_built:
  "assignment_model u = Inr
     \<lparr>mname = ''Assignment-Problem'',
      mvars = map (\<lambda>k. (k, BINARY, ''X'')) assignment_X,
      objective = concat (map (\<lambda>i. map (\<lambda>j. (item (assignment_c u) (i, j), (i, j))) assignment_M) assignment_N),
      msense = MINIMIZE,
      constrs =
        map (\<lambda>j. \<lparr>lhs = map (\<lambda>i. (1, (i, j))) assignment_M, rel = EQUAL, rhs = 1,
                  cname = ''task_'' @ str_nat j @ ''_assigned_to_one_resource''\<rparr>) assignment_N @
        map (\<lambda>i. \<lparr>lhs = map (\<lambda>j. (1, (i, j))) assignment_N, rel = EQUAL, rhs = 1,
                  cname = ''resource_'' @ str_nat i @ ''_assigned_to_one_task''\<rparr>) assignment_M\<rparr>"
  by (simp add: assignment_model_def Let_def assignment_total_cost_built task_constraints_built
      resource_constraints_built addVars_def Model_def setObjective_def)

lemma eval_linexpr_concat: "eval_linexpr x (concat es) = (\<Sum>e\<leftarrow>es. eval_linexpr x e)"
  by (induction es) (simp_all add: eval_linexpr_def)

lemma sum_assignment_M: "(\<Sum>i\<leftarrow>assignment_M. f i) = (\<Sum>i\<in>set assignment_M. (f i :: rat))"
  by (rule sum_list_distinct_conv_sum_set) (rule distinct_assignment_M)

lemma assignment_model_fields:
  assumes "assignment_model u = Inr m"
  shows "mvars m = map (\<lambda>k. (k, BINARY, ''X'')) assignment_X"
    and "objective m =
      concat (map (\<lambda>i. map (\<lambda>j. (item (assignment_c u) (i, j), (i, j))) assignment_M) assignment_N)"
    and "msense m = MINIMIZE"
    and "constrs m =
      map (\<lambda>j. \<lparr>lhs = map (\<lambda>i. (1, (i, j))) assignment_M, rel = EQUAL, rhs = 1,
                cname = ''task_'' @ str_nat j @ ''_assigned_to_one_resource''\<rparr>) assignment_N @
      map (\<lambda>i. \<lparr>lhs = map (\<lambda>j. (1, (i, j))) assignment_N, rel = EQUAL, rhs = 1,
                cname = ''resource_'' @ str_nat i @ ''_assigned_to_one_task''\<rparr>) assignment_M"
proof -
  from assms have m: "m =
     \<lparr>mname = ''Assignment-Problem'',
      mvars = map (\<lambda>k. (k, BINARY, ''X'')) assignment_X,
      objective = concat (map (\<lambda>i. map (\<lambda>j. (item (assignment_c u) (i, j), (i, j))) assignment_M) assignment_N),
      msense = MINIMIZE,
      constrs =
        map (\<lambda>j. \<lparr>lhs = map (\<lambda>i. (1, (i, j))) assignment_M, rel = EQUAL, rhs = 1,
                  cname = ''task_'' @ str_nat j @ ''_assigned_to_one_resource''\<rparr>) assignment_N @
        map (\<lambda>i. \<lparr>lhs = map (\<lambda>j. (1, (i, j))) assignment_N, rel = EQUAL, rhs = 1,
                  cname = ''resource_'' @ str_nat i @ ''_assigned_to_one_task''\<rparr>) assignment_M\<rparr>"
    by (simp only: assignment_model_built sum.inject)
  show "mvars m = map (\<lambda>k. (k, BINARY, ''X'')) assignment_X"
    by (subst m) (simp only: model.simps)
  show "objective m =
      concat (map (\<lambda>i. map (\<lambda>j. (item (assignment_c u) (i, j), (i, j))) assignment_M) assignment_N)"
    by (subst m) (simp only: model.simps)
  show "msense m = MINIMIZE"
    by (subst m) (simp only: model.simps)
  show "constrs m =
      map (\<lambda>j. \<lparr>lhs = map (\<lambda>i. (1, (i, j))) assignment_M, rel = EQUAL, rhs = 1,
                cname = ''task_'' @ str_nat j @ ''_assigned_to_one_resource''\<rparr>) assignment_N @
      map (\<lambda>i. \<lparr>lhs = map (\<lambda>j. (1, (i, j))) assignment_N, rel = EQUAL, rhs = 1,
                cname = ''resource_'' @ str_nat i @ ''_assigned_to_one_task''\<rparr>) assignment_M"
    by (subst m) (simp only: model.simps)
qed

lemma assignment_objective:
  assumes "assignment_model u = Inr m"
  shows "eval_linexpr x (objective m) =
           (\<Sum>i\<in>set assignment_M. \<Sum>j\<in>set assignment_N. item (assignment_c u) (i, j) * x (i, j))"
proof -
  have "eval_linexpr x (objective m) =
      (\<Sum>i\<leftarrow>assignment_N. \<Sum>j\<leftarrow>assignment_M. item (assignment_c u) (i, j) * x (i, j))"
    unfolding assignment_model_fields(2) [OF assms] eval_linexpr_concat
    by (simp add: comp_def eval_linexpr_map)
  then show ?thesis
    by (simp only: assignment_N_M sum_assignment_M)
qed

lemma list_all_map: "list_all P (map f xs) = (\<forall>a\<in>set xs. P (f a))"
  by (simp add: list_all_iff)

lemma satisfies_unit_sum:
  "satisfies x \<lparr>lhs = map (\<lambda>a. (1, k a)) xs, rel = EQUAL, rhs = 1, cname = nm\<rparr> \<longleftrightarrow>
     (\<Sum>a\<leftarrow>xs. x (k a)) = 1"
  by (simp add: satisfies_def eval_linexpr_map)

lemma assignment_feasible_iff:
  assumes "assignment_model u = Inr m"
  shows "feasible m x \<longleftrightarrow>
     (\<forall>i\<in>set assignment_M. \<forall>j\<in>set assignment_N. x (i, j) = 0 \<or> x (i, j) = 1) \<and>
     (\<forall>j\<in>set assignment_N. (\<Sum>i\<in>set assignment_M. x (i, j)) = 1) \<and>
     (\<forall>i\<in>set assignment_M. (\<Sum>j\<in>set assignment_N. x (i, j)) = 1)"
proof -
  have vars: "list_all (\<lambda>d. in_domain (fst (snd d)) (x (fst d))) (mvars m) \<longleftrightarrow>
      (\<forall>i\<in>set assignment_M. \<forall>j\<in>set assignment_N. x (i, j) = 0 \<or> x (i, j) = 1)"
    by (simp add: assignment_model_fields(1) [OF assms] list_all_map assignment_X_def assignment_N_M)
  have cons: "list_all (satisfies x) (constrs m) \<longleftrightarrow>
     (\<forall>j\<in>set assignment_N. (\<Sum>i\<in>set assignment_M. x (i, j)) = 1) \<and>
     (\<forall>i\<in>set assignment_M. (\<Sum>j\<in>set assignment_N. x (i, j)) = 1)"
    by (simp add: assignment_model_fields(4) [OF assms] list_all_map satisfies_unit_sum
        assignment_N_M sum_assignment_M)
  show ?thesis
    unfolding feasible_def vars cons by blast
qed

text \<open>
  Claim C4. Every 0/1 solution that satisfies all constraints the assignment notebook
  builds (for each task the variables over the resources sum to 1, for each resource
  the variables over the tasks sum to 1) induces a bijection between the resources \<open>M\<close>
  and the tasks \<open>N\<close>: the map sending each resource to the one task whose variable
  is 1.
\<close>
theorem assignment_feasible_is_matching:
  assumes "assignment_model u = Inr m" and "feasible m x"
  shows "(\<forall>j\<in>set assignment_N. (\<Sum>i\<in>set assignment_M. x (i, j)) = 1) \<and>
         (\<forall>i\<in>set assignment_M. (\<Sum>j\<in>set assignment_N. x (i, j)) = 1) \<and>
         (\<exists>f. bij_betw f (set assignment_M) (set assignment_N) \<and>
              (\<forall>i\<in>set assignment_M. \<forall>j\<in>set assignment_N. x (i, j) = 1 \<longleftrightarrow> j = f i))"
proof -
  from assms have bin: "\<forall>i\<in>set assignment_M. \<forall>j\<in>set assignment_N. x (i, j) = 0 \<or> x (i, j) = 1"
    and cols: "\<forall>j\<in>set assignment_N. (\<Sum>i\<in>set assignment_M. x (i, j)) = 1"
    and rows: "\<forall>i\<in>set assignment_M. (\<Sum>j\<in>set assignment_N. x (i, j)) = 1"
    by (simp_all add: assignment_feasible_iff)
  have "\<exists>f. bij_betw f (set assignment_M) (set assignment_N) \<and>
      (\<forall>i\<in>set assignment_M. \<forall>j\<in>set assignment_N. x (i, j) = 1 \<longleftrightarrow> j = f i)"
    by (rule matching_bijection) (use bin rows cols in simp_all)
  with cols rows show ?thesis by blast
qed

lemma matching_solution_feasible:
  assumes m: "assignment_model u = Inr m"
    and f: "bij_betw f (set assignment_M) (set assignment_N)"
  shows "feasible m (matching_solution f)"
proof -
  let ?x = "matching_solution f"
  from f have inj: "inj_on f (set assignment_M)"
    and img: "f ` set assignment_M = set assignment_N"
    by (simp_all add: bij_betw_def)
  have bin: "\<forall>i\<in>set assignment_M. \<forall>j\<in>set assignment_N. ?x (i, j) = 0 \<or> ?x (i, j) = 1"
    by (simp add: matching_solution_def)
  have rows: "\<forall>i\<in>set assignment_M. (\<Sum>j\<in>set assignment_N. ?x (i, j)) = 1"
  proof
    fix i assume "i \<in> set assignment_M"
    with img have "f i \<in> set assignment_N" by blast
    moreover have "(\<Sum>j\<in>set assignment_N. ?x (i, j)) =
        (\<Sum>j\<in>set assignment_N. if j = f i then 1 else 0)"
      by (simp add: matching_solution_def)
    ultimately show "(\<Sum>j\<in>set assignment_N. ?x (i, j)) = 1"
      by (simp only: sum.delta [OF finite_set] if_True)
  qed
  have cols: "\<forall>j\<in>set assignment_N. (\<Sum>i\<in>set assignment_M. ?x (i, j)) = 1"
  proof
    fix j assume "j \<in> set assignment_N"
    with img have "j \<in> f ` set assignment_M" by simp
    then obtain i where i: "i \<in> set assignment_M" "f i = j"
      by blast
    have "\<exists>!i. i \<in> set assignment_M \<and> ?x (i, j) = 1"
    proof (rule ex1I [of _ i])
      show "i \<in> set assignment_M \<and> ?x (i, j) = 1"
        using i by (simp add: matching_solution_def)
    next
      fix i' assume "i' \<in> set assignment_M \<and> ?x (i', j) = 1"
      then have "i' \<in> set assignment_M" and "f i' = f i"
        using i(2) by (simp_all add: matching_solution_def split: if_splits)
      with inj i(1) show "i' = i" by (simp add: inj_on_def)
    qed
    moreover have "\<forall>i\<in>set assignment_M. ?x (i, j) = 0 \<or> ?x (i, j) = 1"
      by (simp add: matching_solution_def)
    ultimately show "(\<Sum>i\<in>set assignment_M. ?x (i, j)) = 1"
      by (intro one_binary_sum finite_set)
  qed
  from bin rows cols show ?thesis
    unfolding assignment_feasible_iff [OF m] by blast
qed

lemma assignment_M_list: "assignment_M = [1, 2, 3, 4, 5, 6, 7, 8, 9, 10]"
  by (simp add: assignment_M_def SIZE_def upt_rec)

lemma reported_task_upto_10: "map reported_task assignment_M = [10, 7, 5, 1, 9, 4, 2, 6, 3, 8]"
  by (simp add: assignment_M_list reported_task_def assignment_reported_def)

lemma reported_task_bij: "bij_betw reported_task (set assignment_M) (set assignment_N)"
proof -
  have "distinct (map reported_task assignment_M)"
    unfolding reported_task_upto_10 by simp
  then have "inj_on reported_task (set assignment_M)"
    by (simp add: distinct_map)
  moreover have "set (map reported_task assignment_M) = set assignment_N"
    by (simp only: reported_task_upto_10) (auto simp: assignment_N_M assignment_M_list)
  ultimately show ?thesis
    by (simp add: bij_betw_def)
qed

theorem assignment_feasible_is_matching_witness:
  "\<exists>m. assignment_model (\<lambda>n. 0) = Inr m \<and> feasible m (matching_solution reported_task) \<and>
     (\<exists>f. bij_betw f (set assignment_M) (set assignment_N) \<and>
          (\<forall>i\<in>set assignment_M. \<forall>j\<in>set assignment_N.
             matching_solution reported_task (i, j) = 1 \<longleftrightarrow> j = f i))"
proof -
  obtain m where m: "assignment_model (\<lambda>n. 0) = Inr m"
    using assignment_model_built by blast
  have feas: "feasible m (matching_solution reported_task)"
    using m reported_task_bij by (rule matching_solution_feasible)
  show ?thesis
    using m feas assignment_feasible_is_matching [OF m feas] by blast
qed

lemma assignment_M_nth: "k < 10 \<Longrightarrow> assignment_M ! k = Suc k"
  by (simp add: assignment_M_def SIZE_def)

lemma draw_index_Suc: "draw_index (Suc a, Suc b) = 10 * a + b"
  by (simp add: draw_index_def SIZE_def)

lemma product_at_draw_index:
  assumes "i \<in> set assignment_M" and "j \<in> set assignment_N"
  shows "draw_index (i, j) < 100"
    and "List.product assignment_M assignment_N ! draw_index (i, j) = (i, j)"
proof -
  define a b where "a = i - 1" and "b = j - 1"
  from assms have ab: "i = Suc a" "j = Suc b" and less: "a < 10" "b < 10"
    by (auto simp: a_def b_def assignment_N_M set_assignment_M)
  from less have n: "10 * a + b < 100" by simp
  then show "draw_index (i, j) < 100"
    unfolding ab draw_index_Suc .
  have "(10 * a + b) div 10 = a" "(10 * a + b) mod 10 = b"
    using less by simp_all
  with n less have "List.product assignment_M assignment_N ! (10 * a + b) = (Suc a, Suc b)"
    by (simp add: product_nth assignment_N_M length_assignment_M assignment_M_nth)
  then show "List.product assignment_M assignment_N ! draw_index (i, j) = (i, j)"
    unfolding ab draw_index_Suc .
qed

lemma item_assignment_c:
  assumes "i \<in> set assignment_M" and "j \<in> set assignment_N"
  shows "item (assignment_c u) (i, j) = u (draw_index (i, j))"
proof (rule item_distinct)
  show "distinct (map fst (assignment_c u))"
    by (rule distinct_assignment_c)
  let ?n = "draw_index (i, j)"
  have "?n < 100" and "List.product assignment_M assignment_N ! ?n = (i, j)"
    using assms by (rule product_at_draw_index)+
  then show "((i, j), u ?n) \<in> set (assignment_c u)"
    unfolding assignment_c_def Let_def in_set_zip
    by (intro exI [of _ ?n]) (simp add: assignment_N_M length_assignment_M)
qed

text \<open>
  Claim C8. The assignment data satisfy the data-model invariant: \<open>M\<close> and \<open>N\<close> are
  both the set \<open>{1, ..., 10}\<close>, so of equal size, and the cost dictionary has exactly
  one entry for every pair of \<open>M \<times> N\<close>, 100 in all, whatever the samples drawn.
\<close>
theorem assignment_data_invariant:
  "SIZE = 10 \<and> set assignment_M = {1..10} \<and> set assignment_N = {1..10} \<and>
   distinct assignment_M \<and> distinct assignment_N \<and>
   card (set assignment_M) = card (set assignment_N) \<and>
   dict_keys (assignment_c u) = set assignment_M \<times> set assignment_N \<and>
   distinct (map fst (assignment_c u)) \<and> length (assignment_c u) = 100 \<and>
   (\<forall>i\<in>set assignment_M. \<forall>j\<in>set assignment_N.
      dict_get (assignment_c u) (i, j) = Inr (u (draw_index (i, j))))"
proof -
  have "length (assignment_c u) = 100"
    by (simp add: assignment_c_def Let_def assignment_N_M length_assignment_M)
  moreover have "\<forall>i\<in>set assignment_M. \<forall>j\<in>set assignment_N.
      dict_get (assignment_c u) (i, j) = Inr (u (draw_index (i, j)))"
    by (simp add: dict_get_item dict_keys_assignment_c item_assignment_c)
  ultimately show ?thesis
    using set_assignment_M distinct_assignment_M dict_keys_assignment_c [of u]
      distinct_assignment_c [of u]
    by (simp add: assignment_N_M SIZE_def)
qed

theorem assignment_data_invariant_witness:
  "(4, 1) \<in> set assignment_M \<times> set assignment_N \<and>
   dict_get (assignment_c (\<lambda>n. recorded_uniform ! n)) (4, 1) = Inr 2.64555612104627"
proof -
  have "(4, 1) \<in> set assignment_M \<times> set assignment_N"
    by (simp add: assignment_N_M set_assignment_M)
  moreover have "recorded_uniform ! draw_index (4, 1) = 2.64555612104627"
    by (simp add: draw_index_def SIZE_def recorded_uniform_def)
  ultimately show ?thesis
    using assignment_data_invariant [of "\<lambda>n. recorded_uniform ! n"] by auto
qed

section \<open>The minimum-cost matching\<close>

text \<open>
  The recorded matching is certified by task prices: for every resource, moving from
  its recorded task to another task raises the recorded cost by at least the price
  difference plus 0.06. Summed over a permutation the price differences cancel, so no
  permutation is cheaper, and the margin absorbs the tolerance on the samples.
\<close>

lemma price_certificate:
  "list_all (\<lambda>i. list_all (\<lambda>j. j = reported_task i \<or>
       price j - price (reported_task i) + 3 / 50 \<le>
         recorded_uniform ! draw_index (i, j) - recorded_uniform ! draw_index (i, reported_task i))
     assignment_M) assignment_M"
  by (simp add: assignment_M_list reported_task_def assignment_reported_def price_def
      task_price_def draw_index_def SIZE_def recorded_uniform_def)

lemma close_to_recordD:
  "close_to_record u \<Longrightarrow> n < 100 \<Longrightarrow> \<bar>u n - recorded_uniform ! n\<bar> \<le> draw_tolerance"
  by (simp add: close_to_record_def list_all_iff SIZE_def)

lemma reported_task_in:
  "i \<in> set assignment_M \<Longrightarrow> reported_task i \<in> set assignment_N"
  using reported_task_bij by (auto simp: bij_betw_def)

lemma move_to_other_task:
  assumes "i \<in> set assignment_M" and "j \<in> set assignment_N" and "j \<noteq> reported_task i"
  shows "price j - price (reported_task i) + 3 / 50 \<le>
    recorded_uniform ! draw_index (i, j) - recorded_uniform ! draw_index (i, reported_task i)"
  using price_certificate assms by (auto simp: list_all_iff assignment_N_M)

lemma move_cost:
  assumes u: "close_to_record u" and i: "i \<in> set assignment_M" and j: "j \<in> set assignment_N"
  shows "price j - price (reported_task i) \<le>
           item (assignment_c u) (i, j) - item (assignment_c u) (i, reported_task i)"
    and "j \<noteq> reported_task i \<Longrightarrow> price j - price (reported_task i) <
           item (assignment_c u) (i, j) - item (assignment_c u) (i, reported_task i)"
proof -
  have strict: "price j - price (reported_task i) <
      item (assignment_c u) (i, j) - item (assignment_c u) (i, reported_task i)"
    if other: "j \<noteq> reported_task i"
  proof -
    let ?n = "draw_index (i, j)" and ?k = "draw_index (i, reported_task i)"
    have "\<bar>u ?n - recorded_uniform ! ?n\<bar> \<le> draw_tolerance"
      using u i j by (intro close_to_recordD product_at_draw_index)
    then have n: "recorded_uniform ! ?n - draw_tolerance \<le> u ?n"
      by (simp add: abs_diff_le_iff)
    have "\<bar>u ?k - recorded_uniform ! ?k\<bar> \<le> draw_tolerance"
      using u i by (intro close_to_recordD product_at_draw_index reported_task_in)
    then have k: "u ?k \<le> recorded_uniform ! ?k + draw_tolerance"
      by (simp add: abs_diff_le_iff)
    have "2 * draw_tolerance < 3 / 50"
      by (simp add: draw_tolerance_def)
    with n k move_to_other_task [OF i j other]
    have "price j - price (reported_task i) < u ?n - u ?k"
      by linarith
    then show ?thesis
      using i j by (simp add: item_assignment_c reported_task_in)
  qed
  then show "j \<noteq> reported_task i \<Longrightarrow> price j - price (reported_task i) <
      item (assignment_c u) (i, j) - item (assignment_c u) (i, reported_task i)" .
  from strict show "price j - price (reported_task i) \<le>
      item (assignment_c u) (i, j) - item (assignment_c u) (i, reported_task i)"
    by (cases "j = reported_task i") simp_all
qed

lemma matching_cost_set: "matching_cost c f = (\<Sum>i\<in>set assignment_M. item c (i, f i))"
  by (simp add: matching_cost_def sum_assignment_M)

lemma price_sum:
  assumes "bij_betw f (set assignment_M) (set assignment_N)"
  shows "(\<Sum>i\<in>set assignment_M. price (f i)) = (\<Sum>j\<in>set assignment_N. price j)"
  using assms by (rule sum.reindex_bij_betw)

lemma cost_difference:
  "matching_cost c f - matching_cost c g =
     (\<Sum>i\<in>set assignment_M. item c (i, f i) - item c (i, g i))"
  by (simp add: matching_cost_set sum_subtractf)

lemma price_difference:
  assumes "bij_betw f (set assignment_M) (set assignment_N)"
  shows "(\<Sum>i\<in>set assignment_M. price (f i) - price (reported_task i)) = 0"
  by (simp add: sum_subtractf price_sum [OF assms] price_sum [OF reported_task_bij])

lemma reported_matching_minimal:
  assumes u: "close_to_record u" and f: "bij_betw f (set assignment_M) (set assignment_N)"
  shows "matching_cost (assignment_c u) reported_task \<le> matching_cost (assignment_c u) f"
proof -
  have "(\<Sum>i\<in>set assignment_M. price (f i) - price (reported_task i)) \<le>
      (\<Sum>i\<in>set assignment_M.
         item (assignment_c u) (i, f i) - item (assignment_c u) (i, reported_task i))"
  proof (rule sum_mono)
    fix i assume i: "i \<in> set assignment_M"
    with f have "f i \<in> set assignment_N" by (auto simp: bij_betw_def)
    with u i show "price (f i) - price (reported_task i) \<le>
        item (assignment_c u) (i, f i) - item (assignment_c u) (i, reported_task i)"
      by (rule move_cost(1))
  qed
  then have "0 \<le> matching_cost (assignment_c u) f - matching_cost (assignment_c u) reported_task"
    by (simp only: price_difference [OF f] cost_difference)
  then show ?thesis by simp
qed

lemma reported_matching_unique:
  assumes u: "close_to_record u" and f: "bij_betw f (set assignment_M) (set assignment_N)"
    and other: "\<exists>i\<in>set assignment_M. f i \<noteq> reported_task i"
  shows "matching_cost (assignment_c u) reported_task < matching_cost (assignment_c u) f"
proof -
  have in_N: "f i \<in> set assignment_N" if "i \<in> set assignment_M" for i
    using that f by (auto simp: bij_betw_def)
  have "(\<Sum>i\<in>set assignment_M. price (f i) - price (reported_task i)) <
      (\<Sum>i\<in>set assignment_M.
         item (assignment_c u) (i, f i) - item (assignment_c u) (i, reported_task i))"
  proof (rule sum_strict_mono_ex1)
    show "finite (set assignment_M)" by simp
    show "\<forall>i\<in>set assignment_M. price (f i) - price (reported_task i) \<le>
        item (assignment_c u) (i, f i) - item (assignment_c u) (i, reported_task i)"
      using u in_N by (simp add: move_cost(1))
    from other obtain i where "i \<in> set assignment_M" "f i \<noteq> reported_task i" by blast
    then show "\<exists>i\<in>set assignment_M. price (f i) - price (reported_task i) <
        item (assignment_c u) (i, f i) - item (assignment_c u) (i, reported_task i)"
      using u in_N by (intro bexI [of _ i] move_cost(2)) simp_all
  qed
  then have "0 < matching_cost (assignment_c u) f - matching_cost (assignment_c u) reported_task"
    by (simp only: price_difference [OF f] cost_difference)
  then show ?thesis by simp
qed

lemma sum_list_close:
  fixes u r :: "nat \<Rightarrow> rat"
  assumes "\<forall>n\<in>set ns. \<bar>u n - r n\<bar> \<le> t"
  shows "\<bar>(\<Sum>n\<leftarrow>ns. u n) - (\<Sum>n\<leftarrow>ns. r n)\<bar> \<le> of_nat (length ns) * t"
  using assms
proof (induction ns)
  case Nil
  then show ?case by simp
next
  case (Cons n ns)
  then have "\<bar>u n - r n\<bar> \<le> t"
    and "\<bar>(\<Sum>n\<leftarrow>ns. u n) - (\<Sum>n\<leftarrow>ns. r n)\<bar> \<le> of_nat (length ns) * t"
    by simp_all
  then show ?case
    by (simp add: algebra_simps)
qed

lemma reported_draws:
  "map (\<lambda>i. draw_index (i, reported_task i)) assignment_M = [9, 16, 24, 30, 48, 53, 61, 75, 82, 97]"
  by (simp add: assignment_M_list reported_task_def assignment_reported_def draw_index_def SIZE_def)

lemma recorded_cost: "(\<Sum>n\<leftarrow>[9, 16, 24, 30, 48, 53, 61, 75, 82, 97]. recorded_uniform ! n) = 14.37781091866779297"
  by (simp add: recorded_uniform_def)

lemma reported_cost_draws:
  "matching_cost (assignment_c u) reported_task = (\<Sum>n\<leftarrow>[9, 16, 24, 30, 48, 53, 61, 75, 82, 97]. u n)"
proof -
  have "map (\<lambda>i. item (assignment_c u) (i, reported_task i)) assignment_M =
      map (\<lambda>i. u (draw_index (i, reported_task i))) assignment_M"
    by (rule map_cong) (simp_all add: item_assignment_c reported_task_in)
  also have "\<dots> = map u (map (\<lambda>i. draw_index (i, reported_task i)) assignment_M)"
    by (simp add: comp_def)
  finally show ?thesis
    by (simp only: matching_cost_def reported_draws)
qed

lemma reported_cost_approx:
  assumes "close_to_record u"
  shows "\<bar>matching_cost (assignment_c u) reported_task - 14.3778\<bar> < 0.00005"
proof -
  let ?ns = "[9, 16, 24, 30, 48, 53, 61, 75, 82, 97] :: nat list"
  define total where "total = matching_cost (assignment_c u) reported_task"
  define exact :: rat where "exact = 14.37781091866779297"
  define slack :: rat where "slack = 10 * draw_tolerance"
  have "\<forall>n\<in>set ?ns. \<bar>u n - recorded_uniform ! n\<bar> \<le> draw_tolerance"
    using close_to_recordD [OF assms] by simp
  then have "\<bar>(\<Sum>n\<leftarrow>?ns. u n) - (\<Sum>n\<leftarrow>?ns. recorded_uniform ! n)\<bar>
      \<le> of_nat (length ?ns) * draw_tolerance"
    by (rule sum_list_close)
  then have "\<bar>total - exact\<bar> \<le> slack"
    unfolding total_def exact_def slack_def
    by (simp only: reported_cost_draws recorded_cost) simp
  then have lo: "exact - slack \<le> total" and hi: "total \<le> exact + slack"
    by (simp_all only: abs_diff_le_iff)
  have lo': "14.3778 - 0.00005 < exact - slack" and hi': "exact + slack < 14.3778 + 0.00005"
    by (simp_all add: exact_def slack_def draw_tolerance_def)
  from lo' lo have "14.3778 - 0.00005 < total"
    by (rule less_le_trans)
  moreover from hi hi' have "total < 14.3778 + 0.00005"
    by (rule le_less_trans)
  ultimately have "14.3778 - 0.00005 < total \<and> total < 14.3778 + 0.00005" ..
  then show ?thesis
    unfolding total_def by (simp only: abs_diff_less_iff)
qed

lemma feasible_matching_solution:
  assumes m: "assignment_model u = Inr m" and x: "feasible m x"
  shows "\<exists>f. bij_betw f (set assignment_M) (set assignment_N) \<and>
    (\<forall>i\<in>set assignment_M. \<forall>j\<in>set assignment_N. x (i, j) = matching_solution f (i, j))"
proof -
  from x have bin: "\<forall>i\<in>set assignment_M. \<forall>j\<in>set assignment_N. x (i, j) = 0 \<or> x (i, j) = 1"
    and cols: "\<forall>j\<in>set assignment_N. (\<Sum>i\<in>set assignment_M. x (i, j)) = 1"
    and rows: "\<forall>i\<in>set assignment_M. (\<Sum>j\<in>set assignment_N. x (i, j)) = 1"
    by (simp_all add: assignment_feasible_iff [OF m])
  have "\<exists>f. bij_betw f (set assignment_M) (set assignment_N) \<and>
      (\<forall>i\<in>set assignment_M. \<forall>j\<in>set assignment_N. x (i, j) = 1 \<longleftrightarrow> j = f i)"
    by (rule matching_bijection) (use bin rows cols in simp_all)
  then obtain f where f: "bij_betw f (set assignment_M) (set assignment_N)"
    and one: "\<forall>i\<in>set assignment_M. \<forall>j\<in>set assignment_N. x (i, j) = 1 \<longleftrightarrow> j = f i"
    by blast
  have "x (i, j) = matching_solution f (i, j)"
    if "i \<in> set assignment_M" "j \<in> set assignment_N" for i j
  proof (cases "j = f i")
    case True
    with one that show ?thesis by (simp add: matching_solution_def)
  next
    case False
    with one that have "x (i, j) \<noteq> 1" by simp
    with bin that have "x (i, j) = 0" by blast
    with False show ?thesis by (simp add: matching_solution_def)
  qed
  with f show ?thesis by blast
qed

lemma objective_agree:
  assumes m: "assignment_model u = Inr m"
    and agree: "\<forall>i\<in>set assignment_M. \<forall>j\<in>set assignment_N. x (i, j) = y (i, j)"
  shows "eval_linexpr x (objective m) = eval_linexpr y (objective m)"
  unfolding assignment_objective [OF m]
  by (intro sum.cong refl) (simp add: agree)

lemma feasible_agree:
  assumes m: "assignment_model u = Inr m"
    and agree: "\<forall>i\<in>set assignment_M. \<forall>j\<in>set assignment_N. x (i, j) = y (i, j)"
    and y: "feasible m y"
  shows "feasible m x"
proof -
  have "(\<Sum>i\<in>set assignment_M. x (i, j)) = (\<Sum>i\<in>set assignment_M. y (i, j))"
    if "j \<in> set assignment_N" for j
    by (rule sum.cong) (use that agree in simp_all)
  moreover have "(\<Sum>j\<in>set assignment_N. x (i, j)) = (\<Sum>j\<in>set assignment_N. y (i, j))"
    if "i \<in> set assignment_M" for i
    by (rule sum.cong) (use that agree in simp_all)
  ultimately show ?thesis
    using y agree by (simp add: assignment_feasible_iff [OF m])
qed

lemma objective_matching:
  assumes m: "assignment_model u = Inr m"
    and f: "bij_betw f (set assignment_M) (set assignment_N)"
  shows "eval_linexpr (matching_solution f) (objective m) = matching_cost (assignment_c u) f"
proof -
  have "(\<Sum>j\<in>set assignment_N. item (assignment_c u) (i, j) * matching_solution f (i, j)) =
      item (assignment_c u) (i, f i)" if "i \<in> set assignment_M" for i
  proof -
    from that f have "f i \<in> set assignment_N" by (auto simp: bij_betw_def)
    moreover have "(\<Sum>j\<in>set assignment_N. item (assignment_c u) (i, j) * matching_solution f (i, j)) =
        (\<Sum>j\<in>set assignment_N. if j = f i then item (assignment_c u) (i, j) else 0)"
      by (rule sum.cong) (simp_all add: matching_solution_def)
    ultimately show ?thesis
      by (simp only: sum.delta [OF finite_set] if_True)
  qed
  then show ?thesis
    unfolding assignment_objective [OF m] matching_cost_set
    by (intro sum.cong refl)
qed

lemma assignment_optimal_iff:
  assumes u: "close_to_record u" and m: "assignment_model u = Inr m"
  shows "optimal m x \<longleftrightarrow>
    (\<forall>i\<in>set assignment_M. \<forall>j\<in>set assignment_N. x (i, j) = matching_solution reported_task (i, j))"
proof
  let ?best = "matching_solution reported_task"
  have best: "feasible m ?best"
    using m reported_task_bij by (rule matching_solution_feasible)
  {
    assume opt: "optimal m x"
    then have "feasible m x" by (simp add: optimal_def)
    then obtain f where f: "bij_betw f (set assignment_M) (set assignment_N)"
      and x: "\<forall>i\<in>set assignment_M. \<forall>j\<in>set assignment_N. x (i, j) = matching_solution f (i, j)"
      using feasible_matching_solution [OF m] by blast
    from opt best have "eval_linexpr x (objective m) \<le> eval_linexpr ?best (objective m)"
      by (simp add: optimal_def assignment_model_fields(3) [OF m])
    then have le: "matching_cost (assignment_c u) f \<le> matching_cost (assignment_c u) reported_task"
      by (simp only: objective_agree [OF m x] objective_matching [OF m f]
          objective_matching [OF m reported_task_bij])
    have same: "\<forall>i\<in>set assignment_M. f i = reported_task i"
    proof (rule ccontr)
      assume "\<not> ?thesis"
      then have "\<exists>i\<in>set assignment_M. f i \<noteq> reported_task i" by simp
      with u f have "matching_cost (assignment_c u) reported_task < matching_cost (assignment_c u) f"
        by (rule reported_matching_unique)
      with le show False by simp
    qed
    show "\<forall>i\<in>set assignment_M. \<forall>j\<in>set assignment_N. x (i, j) = ?best (i, j)"
      using x same by (simp add: matching_solution_def)
  }
  {
    assume agree: "\<forall>i\<in>set assignment_M. \<forall>j\<in>set assignment_N. x (i, j) = ?best (i, j)"
    have feas: "feasible m x"
      using m agree best by (rule feasible_agree)
    have "eval_linexpr x (objective m) \<le> eval_linexpr y (objective m)" if y: "feasible m y" for y
    proof -
      from y obtain f where f: "bij_betw f (set assignment_M) (set assignment_N)"
        and yf: "\<forall>i\<in>set assignment_M. \<forall>j\<in>set assignment_N. y (i, j) = matching_solution f (i, j)"
        using feasible_matching_solution [OF m] by blast
      from u f have "matching_cost (assignment_c u) reported_task \<le> matching_cost (assignment_c u) f"
        by (rule reported_matching_minimal)
      then show ?thesis
        by (simp only: objective_agree [OF m agree] objective_agree [OF m yf]
            objective_matching [OF m f] objective_matching [OF m reported_task_bij])
    qed
    with feas show "optimal m x"
      by (simp add: optimal_def assignment_model_fields(3) [OF m])
  }
qed

lemma recorded_close: "close_to_record (\<lambda>n. recorded_uniform ! n)"
  by (simp add: close_to_record_def list_all_iff draw_tolerance_def)

text \<open>
  Claim C5. For the 10 by 10 assignment instance whose costs are the samples drawn
  after seeding the generator with 0 (any samples within \<open>10\<^sup>-\<^sup>9\<close> of the decimals the
  notebook records), the minimum-cost perfect matching is exactly the recorded one,
  resource 1 to task 10, 2 to 7, 3 to 5, 4 to 1, 5 to 9, 6 to 4, 7 to 2, 8 to 6,
  9 to 3 and 10 to 8: its total cost is within 0.00005 of 14.3778 and is at most the
  total cost of every permutation of \<open>{1, ..., 10}\<close>, strictly below that of every other
  one. The solutions of the model the notebook builds are optimal exactly when they
  select this matching.
\<close>
theorem reported_matching_is_minimum:
  assumes "close_to_record uniform"
  shows "map reported_task [1, 2, 3, 4, 5, 6, 7, 8, 9, 10] = [10, 7, 5, 1, 9, 4, 2, 6, 3, 8] \<and>
    bij_betw reported_task {1..10} {1..10} \<and>
    \<bar>matching_cost (assignment_c uniform) reported_task - 14.3778\<bar> < 0.00005 \<and>
    (\<forall>f. bij_betw f {1..10} {1..10} \<longrightarrow>
       matching_cost (assignment_c uniform) reported_task \<le> matching_cost (assignment_c uniform) f) \<and>
    (\<forall>f. bij_betw f {1..10} {1..10} \<and> (\<exists>i\<in>{1..10}. f i \<noteq> reported_task i) \<longrightarrow>
       matching_cost (assignment_c uniform) reported_task < matching_cost (assignment_c uniform) f) \<and>
    (\<exists>m. assignment_model uniform = Inr m \<and>
       eval_linexpr (matching_solution reported_task) (objective m) =
         matching_cost (assignment_c uniform) reported_task \<and>
       (\<forall>x. optimal m x \<longleftrightarrow>
          (\<forall>i\<in>{1..10}. \<forall>j\<in>{1..10}. x (i, j) = matching_solution reported_task (i, j))))"
proof -
  have M: "set assignment_M = {1..10}" and N: "set assignment_N = {1..10}"
    by (simp_all add: assignment_N_M set_assignment_M)
  obtain m where m: "assignment_model uniform = Inr m"
    using assignment_model_built by blast
  have "map reported_task [1, 2, 3, 4, 5, 6, 7, 8, 9, 10] = [10, 7, 5, 1, 9, 4, 2, 6, 3, 8]"
    using reported_task_upto_10 by (simp only: assignment_M_list)
  moreover have "bij_betw reported_task {1..10} {1..10}"
    using reported_task_bij by (simp only: M N)
  moreover have "\<bar>matching_cost (assignment_c uniform) reported_task - 14.3778\<bar> < 0.00005"
    using assms by (rule reported_cost_approx)
  moreover have "\<forall>f. bij_betw f {1..10} {1..10} \<longrightarrow>
      matching_cost (assignment_c uniform) reported_task \<le> matching_cost (assignment_c uniform) f"
    using reported_matching_minimal [OF assms] by (simp only: M N) blast
  moreover have "\<forall>f. bij_betw f {1..10} {1..10} \<and> (\<exists>i\<in>{1..10}. f i \<noteq> reported_task i) \<longrightarrow>
      matching_cost (assignment_c uniform) reported_task < matching_cost (assignment_c uniform) f"
    using reported_matching_unique [OF assms] by (simp only: M N) blast
  moreover have "eval_linexpr (matching_solution reported_task) (objective m) =
      matching_cost (assignment_c uniform) reported_task"
    using m reported_task_bij by (rule objective_matching)
  moreover have "\<forall>x. optimal m x \<longleftrightarrow>
      (\<forall>i\<in>{1..10}. \<forall>j\<in>{1..10}. x (i, j) = matching_solution reported_task (i, j))"
    using assignment_optimal_iff [OF assms m] by (simp only: M N) blast
  ultimately show ?thesis
    using m by blast
qed

theorem reported_matching_is_minimum_witness:
  "close_to_record (\<lambda>n. recorded_uniform ! n) \<and> bij_betw id {1..10 :: nat} {1..10} \<and>
   matching_cost (assignment_c (\<lambda>n. recorded_uniform ! n)) reported_task <
     matching_cost (assignment_c (\<lambda>n. recorded_uniform ! n)) id"
proof -
  have id: "bij_betw id {1..10 :: nat} {1..10}" by simp
  have "id (1 :: nat) \<noteq> reported_task 1"
    by (simp add: reported_task_def assignment_reported_def)
  then have "\<exists>i\<in>{1..10}. id i \<noteq> reported_task i"
    by (intro bexI [of _ 1]) simp_all
  with id show ?thesis
    using recorded_close reported_matching_is_minimum [OF recorded_close] by blast
qed

section \<open>The printed reports\<close>

lemma for_each_filter:
  assumes "\<And>a out. a \<in> set xs \<Longrightarrow> body a out = Inr (if P a then out @ [f a] else out)"
  shows "for_each xs body out = Inr (out @ map f (filter P xs))"
  using assms by (induction xs arbitrary: out) simp_all

lemma knapsack_report_lines:
  "knapsack_report x =
     Inr (report_header @ map knapsack_line (filter (\<lambda>i. 0.1 < x i) knapsack_I))"
  unfolding knapsack_report_def
  by (rule for_each_filter) (simp add: getitem_def knapsack_X_def)

lemma knapsack_lines_distinct: "distinct (map knapsack_line knapsack_I)"
  by (simp add: knapsack_I_list knapsack_line_def str_nat.simps digit_char_def)

lemma report_header_lines: "report_header = [''Optimal Assignments'', ''--------------------'']"
  by (simp add: report_header_def numeral_eq_Suc)

lemma knapsack_line_not_header: "knapsack_line i \<notin> set report_header"
  by (simp add: knapsack_line_def report_header_lines)

text \<open>
  Claim C9. After the knapsack model is solved, the printing loop goes through the
  items 1 to 10 in ascending order and prints the line of item \<open>i\<close> exactly when
  \<open>X\<^sub>i = 1\<close>: for a 0/1 value the test \<open>X[i].x > 0.1\<close> holds exactly when the value
  is 1. So the lines printed after the header are those of the selected items, in
  ascending order, and an item's line is printed if and only if the item is selected.
\<close>
theorem knapsack_report_prints_selection:
  assumes "\<forall>i\<in>set knapsack_I. x i = 0 \<or> x i = 1"
  shows "knapsack_I = [1, 2, 3, 4, 5, 6, 7, 8, 9, 10] \<and>
    (\<forall>i\<in>set knapsack_I. (0.1 < x i) = (x i = 1)) \<and>
    (\<exists>lines. knapsack_report x = Inr (report_header @ lines) \<and>
       lines = map knapsack_line (filter (\<lambda>i. x i = 1) knapsack_I) \<and>
       (\<forall>i\<in>set knapsack_I. knapsack_line i \<in> set (report_header @ lines) \<longleftrightarrow> x i = 1))"
proof -
  have test: "\<forall>i\<in>set knapsack_I. (0.1 < x i) = (x i = 1)"
    using assms by auto
  then have "filter (\<lambda>i. 0.1 < x i) knapsack_I = filter (\<lambda>i. x i = 1) knapsack_I"
    by (intro filter_cong refl) simp
  then have out: "knapsack_report x =
      Inr (report_header @ map knapsack_line (filter (\<lambda>i. x i = 1) knapsack_I))"
    by (simp only: knapsack_report_lines)
  have inj: "inj_on knapsack_line (set knapsack_I)"
    using knapsack_lines_distinct by (simp add: distinct_map)
  have "knapsack_line i \<in> set (report_header @ map knapsack_line (filter (\<lambda>i. x i = 1) knapsack_I))
      \<longleftrightarrow> x i = 1" if i: "i \<in> set knapsack_I" for i
  proof
    assume "knapsack_line i \<in> set (report_header @ map knapsack_line (filter (\<lambda>i. x i = 1) knapsack_I))"
    then have "knapsack_line i \<in> knapsack_line ` {k \<in> set knapsack_I. x k = 1}"
      using knapsack_line_not_header by simp
    then obtain k where "k \<in> set knapsack_I" "x k = 1" "knapsack_line i = knapsack_line k"
      by blast
    with inj i show "x i = 1" by (auto dest: inj_onD)
  next
    assume "x i = 1"
    with i show "knapsack_line i \<in> set (report_header @ map knapsack_line (filter (\<lambda>i. x i = 1) knapsack_I))"
      by simp
  qed
  with out test knapsack_I_list show ?thesis by blast
qed

theorem knapsack_report_prints_selection_witness:
  "knapsack_report knapsack_reported =
     Inr [''Optimal Assignments'', ''--------------------'', '' - Item 2 included'',
          '' - Item 3 included'', '' - Item 5 included'', '' - Item 6 included'',
          '' - Item 7 included'', '' - Item 9 included'']"
proof -
  have bin: "\<forall>i\<in>set knapsack_I. knapsack_reported i = 0 \<or> knapsack_reported i = 1"
    using reported_binary by simp
  have "report_header @ map knapsack_line [2, 3, 5, 6, 7, 9] =
      [''Optimal Assignments'', ''--------------------'', '' - Item 2 included'',
          '' - Item 3 included'', '' - Item 5 included'', '' - Item 6 included'',
          '' - Item 7 included'', '' - Item 9 included'']"
    by (simp add: report_header_lines knapsack_line_def str_nat.simps digit_char_def)
  then show ?thesis
    using knapsack_report_prints_selection [OF bin] by (simp only: filter_reported) simp
qed

lemma first_task_find:
  assumes "i \<in> set assignment_M" and "set js \<subseteq> set assignment_N"
  shows "first_task x i js out =
    Inr (out @ (case find (\<lambda>j. 0.1 < x (i, j)) js of None \<Rightarrow> [] | Some j \<Rightarrow> [assignment_line i j]))"
  using assms
  by (induction js) (simp_all add: getitem_assignment_X assignment_N_M)

lemma assignment_report_lines:
  "assignment_report x = Inr (report_header @ concat (map
     (\<lambda>i. case find (\<lambda>j. 0.1 < x (i, j)) assignment_N of None \<Rightarrow> []
           | Some j \<Rightarrow> [assignment_line i j]) assignment_M))"
  unfolding assignment_report_def
  by (rule for_each_append) (simp add: first_task_find)

lemma find_assigned_task:
  assumes bin: "\<forall>j\<in>set js. y j = 0 \<or> y j = (1 :: rat)"
    and one: "\<exists>j\<in>set js. y j = 1"
  shows "\<exists>j. find (\<lambda>j. 0.1 < y j) js = Some j \<and> j \<in> set js \<and> y j = 1"
proof -
  from one have "find (\<lambda>j. 0.1 < y j) js \<noteq> None"
    by (auto simp: find_None_iff)
  then obtain j where j: "find (\<lambda>j. 0.1 < y j) js = Some j" by blast
  then have "j \<in> set js" and "0.1 < y j"
    by (auto simp: find_Some_iff)
  with bin have "y j = 1" by auto
  with j \<open>j \<in> set js\<close> show ?thesis by blast
qed

text \<open>
  Claim C10. The printing loop of the assignment notebook prints at most one line per
  resource, because the inner loop breaks at the first task whose variable exceeds
  0.1. For a 0/1 solution in which every resource has exactly one task with
  \<open>X[i,j] = 1\<close> it prints exactly one line per resource, in the order of the
  resources, naming that task.
\<close>
theorem assignment_report_prints_matching:
  "(\<exists>g. assignment_report x = Inr (report_header @ concat (map g assignment_M)) \<and>
        (\<forall>i. length (g i) \<le> 1)) \<and>
   ((\<forall>i\<in>set assignment_M. \<forall>j\<in>set assignment_N. x (i, j) = 0 \<or> x (i, j) = 1) \<and>
    (\<forall>i\<in>set assignment_M. \<exists>!j. j \<in> set assignment_N \<and> x (i, j) = 1) \<longrightarrow>
    (\<exists>f. (\<forall>i\<in>set assignment_M. f i \<in> set assignment_N \<and> x (i, f i) = 1) \<and>
         assignment_report x =
           Inr (report_header @ map (\<lambda>i. assignment_line i (f i)) assignment_M)))"
proof
  let ?g = "\<lambda>i. case find (\<lambda>j. 0.1 < x (i, j)) assignment_N of None \<Rightarrow> []
      | Some j \<Rightarrow> [assignment_line i j]"
  have "\<forall>i. length (?g i) \<le> 1"
    by (simp split: option.split)
  with assignment_report_lines [of x]
  show "\<exists>g. assignment_report x = Inr (report_header @ concat (map g assignment_M)) \<and>
      (\<forall>i. length (g i) \<le> 1)"
    by blast
next
  show "(\<forall>i\<in>set assignment_M. \<forall>j\<in>set assignment_N. x (i, j) = 0 \<or> x (i, j) = 1) \<and>
    (\<forall>i\<in>set assignment_M. \<exists>!j. j \<in> set assignment_N \<and> x (i, j) = 1) \<longrightarrow>
    (\<exists>f. (\<forall>i\<in>set assignment_M. f i \<in> set assignment_N \<and> x (i, f i) = 1) \<and>
         assignment_report x =
           Inr (report_header @ map (\<lambda>i. assignment_line i (f i)) assignment_M))"
  proof
    assume "(\<forall>i\<in>set assignment_M. \<forall>j\<in>set assignment_N. x (i, j) = 0 \<or> x (i, j) = 1) \<and>
      (\<forall>i\<in>set assignment_M. \<exists>!j. j \<in> set assignment_N \<and> x (i, j) = 1)"
    then have bin: "\<forall>i\<in>set assignment_M. \<forall>j\<in>set assignment_N. x (i, j) = 0 \<or> x (i, j) = 1"
      and one: "\<forall>i\<in>set assignment_M. \<exists>j\<in>set assignment_N. x (i, j) = 1"
      by blast+
    define f where "f i = (case find (\<lambda>j. 0.1 < x (i, j)) assignment_N of None \<Rightarrow> 0 | Some j \<Rightarrow> j)" for i
    have found: "find (\<lambda>j. 0.1 < x (i, j)) assignment_N = Some (f i) \<and>
        f i \<in> set assignment_N \<and> x (i, f i) = 1" if i: "i \<in> set assignment_M" for i
    proof -
      have "\<exists>j. find (\<lambda>j. 0.1 < x (i, j)) assignment_N = Some j \<and> j \<in> set assignment_N \<and> x (i, j) = 1"
        by (rule find_assigned_task) (use bin one i in simp_all)
      then show ?thesis by (auto simp: f_def)
    qed
    have "map (\<lambda>i. case find (\<lambda>j. 0.1 < x (i, j)) assignment_N of None \<Rightarrow> []
          | Some j \<Rightarrow> [assignment_line i j]) assignment_M =
        map (\<lambda>i. [assignment_line i (f i)]) assignment_M"
      by (rule map_cong [OF refl]) (simp only: found option.simps)
    then have "assignment_report x =
        Inr (report_header @ concat (map (\<lambda>i. [assignment_line i (f i)]) assignment_M))"
      by (simp only: assignment_report_lines)
    then have "assignment_report x =
        Inr (report_header @ map (\<lambda>i. assignment_line i (f i)) assignment_M)"
      by (simp add: concat_map_singleton)
    with found show "\<exists>f. (\<forall>i\<in>set assignment_M. f i \<in> set assignment_N \<and> x (i, f i) = 1) \<and>
        assignment_report x =
          Inr (report_header @ map (\<lambda>i. assignment_line i (f i)) assignment_M)"
      by blast
  qed
qed

lemma reported_report:
  "report_header @ map (\<lambda>i. assignment_line i (reported_task i)) assignment_M =
     [''Optimal Assignments'', ''--------------------'',
      '' - Resource 1 -> Task 10'', '' - Resource 2 -> Task 7'', '' - Resource 3 -> Task 5'',
      '' - Resource 4 -> Task 1'', '' - Resource 5 -> Task 9'', '' - Resource 6 -> Task 4'',
      '' - Resource 7 -> Task 2'', '' - Resource 8 -> Task 6'', '' - Resource 9 -> Task 3'',
      '' - Resource 10 -> Task 8'']"
  by (simp add: report_header_lines assignment_M_list reported_task_def assignment_reported_def
      assignment_line_def str_nat.simps digit_char_def)

theorem assignment_report_prints_matching_witness:
  "assignment_report (matching_solution reported_task) =
     Inr [''Optimal Assignments'', ''--------------------'',
      '' - Resource 1 -> Task 10'', '' - Resource 2 -> Task 7'', '' - Resource 3 -> Task 5'',
      '' - Resource 4 -> Task 1'', '' - Resource 5 -> Task 9'', '' - Resource 6 -> Task 4'',
      '' - Resource 7 -> Task 2'', '' - Resource 8 -> Task 6'', '' - Resource 9 -> Task 3'',
      '' - Resource 10 -> Task 8'']"
proof -
  let ?x = "matching_solution reported_task"
  have bin: "\<forall>i\<in>set assignment_M. \<forall>j\<in>set assignment_N. ?x (i, j) = 0 \<or> ?x (i, j) = 1"
    by (simp add: matching_solution_def)
  have one: "\<forall>i\<in>set assignment_M. \<exists>!j. j \<in> set assignment_N \<and> ?x (i, j) = 1"
    using reported_task_in by (auto simp: matching_solution_def)
  from assignment_report_prints_matching [of ?x] bin one
  obtain f where f: "\<forall>i\<in>set assignment_M. f i \<in> set assignment_N \<and> ?x (i, f i) = 1"
    and out: "assignment_report ?x =
      Inr (report_header @ map (\<lambda>i. assignment_line i (f i)) assignment_M)"
    by blast
  from f have "\<forall>i\<in>set assignment_M. f i = reported_task i"
    by (simp add: matching_solution_def split: if_splits)
  then have "map (\<lambda>i. assignment_line i (f i)) assignment_M =
      map (\<lambda>i. assignment_line i (reported_task i)) assignment_M"
    by (intro map_cong refl) simp
  with out show ?thesis
    by (simp only: reported_report)
qed

end
